theory Spec2Isabelle
  imports Main "HOL-Library.Sublist" "HOL-Library.Multiset"
begin

section \<open>The room-membership adapter patch (src/lib/riugh.ts)\<close>

text \<open>
  Rooms and connection identifiers are JavaScript strings. A JavaScript \<open>Set\<close> that
  the code iterates (the \<open>rooms\<close> argument of \<open>addAll\<close>, the \<open>rooms\<close> and \<open>except\<close>
  of a selector) is a list in insertion order without repetition; its \<open>size\<close> is the
  length of that list.
\<close>

type_synonym Room = string
type_synonym SocketId = string

definition SEPARATOR :: string where
  "SEPARATOR = [CHR 0x1F]"

text \<open>
  The part of a \<open>Socket\<close> the patch reads: \<open>socket.id\<close>, \<open>socket.nsp.name\<close>,
  \<open>socket.conn.id\<close>, \<open>socket.conn.transport.name\<close>, and handles for the two objects
  it calls methods on, \<open>socket.conn.transport.socket\<close> (the websocket) and
  \<open>socket.client\<close>.
\<close>

record Socket =
  socket_id :: SocketId
  socket_nsp_name :: string
  conn_id :: string
  transport_name :: string
  transport_socket :: nat
  client :: nat

text \<open>
  The adapter object: \<open>this.nsp.name\<close>, \<open>this.nsp.sockets\<close> (a \<open>Map\<close> from identifier
  to socket), and the two membership tables \<open>this.rooms\<close> and \<open>this.sids\<close> of the
  adapter class.
\<close>

record Adapter =
  nsp_name :: string
  nsp_sockets :: "SocketId \<Rightarrow> Socket option"
  rooms :: "Room \<Rightarrow> SocketId set option"
  sids :: "SocketId \<Rightarrow> Room set option"

text \<open>An encoded frame is a string or a binary buffer (\<open>typeof encodedPacket !== "string"\<close>).\<close>

datatype frame = Text string | Binary "nat list"

datatype PacketType =
  CONNECT | DISCONNECT | EVENT | ACK | CONNECT_ERROR | BINARY_EVENT | BINARY_ACK

record 'd Packet =
  ptype :: PacketType
  data :: 'd
  nsp :: "string option"

text \<open>\<open>BroadcastFlags\<close>, every field optional (\<open>None\<close> is \<open>undefined\<close>).\<close>

record BroadcastFlags =
  volatile :: "bool option"
  compress :: "bool option"
  local :: "bool option"
  timeout :: "int option"
  expectSingleResponse :: "bool option"

definition no_flags :: BroadcastFlags where
  "no_flags = \<lparr>volatile = None, compress = None, local = None, timeout = None,
     expectSingleResponse = None\<rparr>"

text \<open>
  \<open>BroadcastOptions\<close>: \<open>rooms\<close> is required, \<open>except\<close> and \<open>flags\<close> are optional in the
  adapter's type, and the patch reads \<open>opts.except!.size\<close> and \<open>opts.flags || {}\<close>.
\<close>

record BroadcastOptions =
  opts_rooms :: "Room list"
  opts_except :: "Room list option"
  opts_flags :: "BroadcastFlags option"

record PacketOpts =
  preEncoded :: bool
  po_volatile :: "bool option"
  po_compress :: "bool option"

text \<open>A thrown \<open>TypeError\<close>, or \<open>new Error(message)\<close>.\<close>

datatype error = TypeError | Error string

text \<open>
  What the patch does to its collaborators, in call order: \<open>websocket.subscribe(topic)\<close>,
  \<open>websocket.unsubscribe(topic)\<close>, \<open>LoggingService.logConnection(nsp, id)\<close>,
  \<open>app.publish(topic, payload, isBinary)\<close>, \<open>socket.client.writeToEngine(frames, opts)\<close>
  and the call of the original \<open>broadcast\<close>. The \<open>debug(...)\<close> lines are left out.
\<close>

datatype 'd adapter_effect =
    Subscribe nat string
  | Unsubscribe nat string
  | LogConnection string SocketId
  | Publish string frame bool
  | WriteToEngine nat "frame list" PacketOpts
  | OrigBroadcast "'d Packet" BroadcastOptions

fun is_Publish :: "'d adapter_effect \<Rightarrow> bool" where
  "is_Publish (Publish _ _ _) = True"
| "is_Publish _ = False"

fun is_OrigBroadcast :: "'d adapter_effect \<Rightarrow> bool" where
  "is_OrigBroadcast (OrigBroadcast _ _) = True"
| "is_OrigBroadcast _ = False"

definition handleUWebSockets ::
  "string \<Rightarrow> Socket \<Rightarrow> bool \<Rightarrow> Room list \<Rightarrow> 'd adapter_effect list" where
  "handleUWebSockets namespaceName socket isNew rs =
     (let websocket = transport_socket socket in
      (if isNew then [Subscribe websocket namespaceName] else []) @
      map (\<lambda>room. Subscribe websocket (namespaceName @ SEPARATOR @ room)) rs)"

text \<open>
  In the \<open>ws\<close> branch the websocket is a \<open>WebSocket\<close> of the \<open>ws\<close> library (lines 3, 110
  and 124), which has neither a \<open>subscribe\<close> nor an \<open>unsubscribe\<close> method: the first
  such call raises a \<open>TypeError\<close>, and nothing is raised when no call is made. The
  argument is the list of topics the calls would be made for, in order.
\<close>

definition WsWebSocket_calls :: "string list \<Rightarrow> error + 'd adapter_effect list" where
  "WsWebSocket_calls topics = (case topics of [] \<Rightarrow> Inr [] | _ # _ \<Rightarrow> Inl TypeError)"

definition handleWsLibrary ::
  "string \<Rightarrow> Socket \<Rightarrow> bool \<Rightarrow> Room list \<Rightarrow> error + 'd adapter_effect list" where
  "handleWsLibrary namespaceName socket isNew rs =
     WsWebSocket_calls
       ((if isNew then [namespaceName] else []) @
        map (\<lambda>room. namespaceName @ SEPARATOR @ room) rs)"

definition unsubscribeUWebSockets :: "Socket \<Rightarrow> Room \<Rightarrow> 'd adapter_effect list" where
  "unsubscribeUWebSockets socket room =
     (let websocket = transport_socket socket;
          topic = socket_nsp_name socket @ SEPARATOR @ room
      in [Unsubscribe websocket topic])"

definition unsubscribeWsLibrary :: "Socket \<Rightarrow> Room \<Rightarrow> error + 'd adapter_effect list" where
  "unsubscribeWsLibrary socket room =
     (let topic = socket_nsp_name socket @ SEPARATOR @ room
      in WsWebSocket_calls [topic])"

text \<open>
  \<open>patchAdapter\<close> captures the original \<open>addAll\<close>, \<open>del\<close> and \<open>broadcast\<close> of
  \<open>Adapter.prototype\<close> (line 13) and calls them. The original \<open>addAll\<close> and \<open>del\<close>,
  which belong to the adapter library, are the parameter \<open>orig\<close> here: a function on the
  adapter object. The socket is looked up after the original has run, \<open>isNew\<close> is read
  before. The result is the adapter as the call leaves it, and the exception thrown or
  the calls made; an exception leaves the membership change of the original in place.
\<close>

definition addAll ::
  "(Adapter \<Rightarrow> SocketId \<Rightarrow> Room list \<Rightarrow> Adapter) \<Rightarrow> bool \<Rightarrow>
   Adapter \<Rightarrow> SocketId \<Rightarrow> Room list \<Rightarrow> Adapter \<times> (error + 'd adapter_effect list)" where
  "addAll orig useWsLibrary this id' rs =
     (let isNew = (sids this id' = None);
          this' = orig this id' rs
      in case nsp_sockets this' id' of
           None \<Rightarrow> (this', Inr [])
         | Some socket \<Rightarrow>
             (this',
              case (if useWsLibrary then handleWsLibrary (nsp_name this') socket isNew rs
                    else Inr (handleUWebSockets (nsp_name this') socket isNew rs)) of
                Inl e \<Rightarrow> Inl e
              | Inr subscribed \<Rightarrow>
                  Inr (subscribed @
                    (if isNew then [LogConnection (nsp_name this') (socket_id socket)]
                     else []))))"

definition del ::
  "(Adapter \<Rightarrow> SocketId \<Rightarrow> Room \<Rightarrow> Adapter) \<Rightarrow> bool \<Rightarrow>
   Adapter \<Rightarrow> SocketId \<Rightarrow> Room \<Rightarrow> Adapter \<times> (error + 'd adapter_effect list)" where
  "del orig useWsLibrary this id' room =
     (let this' = orig this id' room
      in case nsp_sockets this' id' of
           None \<Rightarrow> (this', Inr [])
         | Some socket \<Rightarrow>
             (this',
              if useWsLibrary then unsubscribeWsLibrary socket room
              else Inr (unsubscribeUWebSockets socket room)))"

text \<open>
  \<open>broadcast\<close>. The encoder (\<open>this.encoder.encode\<close>) and the adapter's \<open>apply\<close>, which
  calls its callback on every socket the selector matches, are parameters: \<open>encode\<close>
  gives the frames of a packet, \<open>apply_sockets\<close> the matching sockets in call order.
  \<open>opts.rooms.size <= 1 && opts.except!.size === 0\<close> reads \<open>except\<close> only when the first
  conjunct holds, and reading \<open>size\<close> of \<open>undefined\<close> raises a \<open>TypeError\<close>.
\<close>

definition useFastPublish :: "BroadcastOptions \<Rightarrow> error + bool" where
  "useFastPublish opts =
     (if length (opts_rooms opts) \<le> 1 then
        (case opts_except opts of
           None \<Rightarrow> Inl TypeError
         | Some exc \<Rightarrow> Inr (length exc = 0))
      else Inr False)"

definition publish_payload :: "frame \<Rightarrow> frame \<times> bool" where
  "publish_payload encodedPacket =
     (case encodedPacket of
        Text s \<Rightarrow> (Text (''4'' @ s), False)
      | Binary b \<Rightarrow> (Binary b, True))"

definition broadcast ::
  "('d Packet \<Rightarrow> frame list) \<Rightarrow> (Adapter \<Rightarrow> BroadcastOptions \<Rightarrow> Socket list) \<Rightarrow>
   Adapter \<Rightarrow> 'd Packet \<Rightarrow> BroadcastOptions \<Rightarrow> error + 'd adapter_effect list" where
  "broadcast encode apply_sockets this packet opts =
     (case useFastPublish opts of
        Inl e \<Rightarrow> Inl e
      | Inr False \<Rightarrow> Inr [OrigBroadcast packet opts]
      | Inr True \<Rightarrow>
          (let flags = (case opts_flags opts of None \<Rightarrow> no_flags | Some f \<Rightarrow> f);
               basePacketOpts = \<lparr>preEncoded = True, po_volatile = volatile flags,
                                 po_compress = compress flags\<rparr>;
               packet' = packet\<lparr>nsp := Some (nsp_name this)\<rparr>;
               encodedPackets = encode packet';
               topic = (case opts_rooms opts of
                          [] \<Rightarrow> nsp_name this
                        | room # _ \<Rightarrow> nsp_name this @ SEPARATOR @ room)
           in Inr
             (map (\<lambda>encodedPacket.
                     Publish topic (fst (publish_payload encodedPacket))
                       (snd (publish_payload encodedPacket))) encodedPackets @
              map (\<lambda>socket. WriteToEngine (client socket) encodedPackets basePacketOpts)
                (filter (\<lambda>socket. transport_name socket \<noteq> ''websocket'')
                   (apply_sockets this opts)))))"

definition publish_calls :: "'d adapter_effect list \<Rightarrow> nat" where
  "publish_calls effs = length (filter is_Publish effs)"

text \<open>The fast path was taken: the call returned and never called the original \<open>broadcast\<close>.\<close>

definition took_fast_path :: "error + 'd adapter_effect list \<Rightarrow> bool" where
  "took_fast_path r = (case r of Inl _ \<Rightarrow> False | Inr effs \<Rightarrow> \<not> list_ex is_OrigBroadcast effs)"

text \<open>
  Modelled from the spec: the original \<open>Adapter.prototype.addAll\<close> and
  \<open>Adapter.prototype.del\<close> of the adapter library, which are not in the repository.
  \<open>addAll\<close> "adds \<open>connectionId\<close> to each room in \<open>rooms\<close>" and creates the
  connection's membership record on the first call; \<open>del\<close> "removes the connection from
  \<open>room\<close>'s membership set", and a room with no connection is absent. They stand for
  \<open>orig\<close> where a statement needs the membership tables themselves.
\<close>

definition members :: "Adapter \<Rightarrow> Room \<Rightarrow> SocketId set" where
  "members this room = (case rooms this room of None \<Rightarrow> {} | Some m \<Rightarrow> m)"

definition rooms_of :: "Adapter \<Rightarrow> SocketId \<Rightarrow> Room set" where
  "rooms_of this id' = (case sids this id' of None \<Rightarrow> {} | Some s \<Rightarrow> s)"

definition base_addAll :: "Adapter \<Rightarrow> SocketId \<Rightarrow> Room list \<Rightarrow> Adapter" where
  "base_addAll this id' rs =
     this\<lparr>sids := (sids this)(id' \<mapsto> rooms_of this id' \<union> set rs),
          rooms := (\<lambda>room. if room \<in> set rs then Some (insert id' (members this room))
                            else rooms this room)\<rparr>"

definition base_del :: "Adapter \<Rightarrow> SocketId \<Rightarrow> Room \<Rightarrow> Adapter" where
  "base_del this id' room =
     this\<lparr>sids := (case sids this id' of
                     None \<Rightarrow> sids this
                   | Some s \<Rightarrow> (sids this)(id' \<mapsto> s - {room})),
          rooms := (case rooms this room of
                      None \<Rightarrow> rooms this
                    | Some m \<Rightarrow> if m - {id'} = {} then (rooms this)(room := None)
                               else (rooms this)(room \<mapsto> m - {id'}))\<rparr>"

text \<open>Concrete inputs for the evaluations below.\<close>

definition socket_s1 :: Socket where
  "socket_s1 = \<lparr>socket_id = ''s1'', socket_nsp_name = ''/chat'', conn_id = ''c1'',
     transport_name = ''websocket'', transport_socket = 7, client = 1\<rparr>"

definition socket_s2 :: Socket where
  "socket_s2 = \<lparr>socket_id = ''s2'', socket_nsp_name = ''/chat'', conn_id = ''c2'',
     transport_name = ''polling'', transport_socket = 8, client = 2\<rparr>"

definition socket_s3 :: Socket where
  "socket_s3 = \<lparr>socket_id = ''s3'', socket_nsp_name = ''/chat'', conn_id = ''c3'',
     transport_name = ''polling'', transport_socket = 9, client = 3\<rparr>"

text \<open>
  Namespace \<open>/chat\<close> with the live sockets \<open>s1\<close> and \<open>s2\<close>; \<open>s1\<close> is in room \<open>a\<close>, \<open>s2\<close>
  has no room entry yet, and \<open>s9\<close> has neither a socket nor an entry.
\<close>

definition chat_adapter :: Adapter where
  "chat_adapter = \<lparr>nsp_name = ''/chat'',
     nsp_sockets = [''s1'' \<mapsto> socket_s1, ''s2'' \<mapsto> socket_s2],
     rooms = [''a'' \<mapsto> {''s1''}],
     sids = [''s1'' \<mapsto> {''a''}]\<rparr>"

definition two_frames :: "string list Packet \<Rightarrow> frame list" where
  "two_frames packet = [Text ''2[hello]'', Binary [1, 2, 3]]"

definition three_sockets :: "Adapter \<Rightarrow> BroadcastOptions \<Rightarrow> Socket list" where
  "three_sockets this opts = [socket_s1, socket_s2, socket_s3]"

definition hello_packet :: "string list Packet" where
  "hello_packet = \<lparr>ptype = EVENT, data = [''hello''], nsp = None\<rparr>"

definition room_a_opts :: BroadcastOptions where
  "room_a_opts = \<lparr>opts_rooms = [''a''], opts_except = Some [], opts_flags = None\<rparr>"

section \<open>The broadcast operator (src/unnamed/part_000)\<close>

subsection \<open>Objects and references\<close>

text \<open>
  A \<open>BroadcastOperator\<close> holds references to two \<open>Set\<close> objects and a flags object,
  and its chaining methods build new operators that share some of them. Whether a
  method leaves its receiver alone is a question about these shared objects, so they
  live in a store: a list of cells, an address being an index, and \<open>new\<close> appends a
  cell. The fields of an operator are \<open>readonly\<close> references.
\<close>

record BroadcastOperator =
  op_adapter :: nat
  op_rooms :: nat
  op_exceptRooms :: nat
  op_flags :: nat

datatype cell =
    SetCell "Room list"
  | FlagsCell BroadcastFlags
  | OperatorCell BroadcastOperator

type_synonym heap = "cell list"

definition alloc :: "heap \<Rightarrow> cell \<Rightarrow> heap \<times> nat" where
  "alloc h c = (h @ [c], length h)"

definition get_Set :: "heap \<Rightarrow> nat \<Rightarrow> Room list option" where
  "get_Set h a =
     (if a < length h then (case h ! a of SetCell s \<Rightarrow> Some s | _ \<Rightarrow> None) else None)"

definition get_Flags :: "heap \<Rightarrow> nat \<Rightarrow> BroadcastFlags option" where
  "get_Flags h a =
     (if a < length h then (case h ! a of FlagsCell f \<Rightarrow> Some f | _ \<Rightarrow> None) else None)"

definition get_Operator :: "heap \<Rightarrow> nat \<Rightarrow> BroadcastOperator option" where
  "get_Operator h a =
     (if a < length h then (case h ! a of OperatorCell x \<Rightarrow> Some x | _ \<Rightarrow> None) else None)"

text \<open>\<open>Set.prototype.add\<close> on the list of a set, and on the \<open>Set\<close> object at an address.\<close>

definition Set_add :: "Room \<Rightarrow> Room list \<Rightarrow> Room list" where
  "Set_add r s = (if r \<in> set s then s else s @ [r])"

definition Set_add_at :: "heap \<Rightarrow> nat \<Rightarrow> Room \<Rightarrow> heap" where
  "Set_add_at h a r =
     (case get_Set h a of None \<Rightarrow> h | Some s \<Rightarrow> h[a := SetCell (Set_add r s)])"

text \<open>\<open>new Set(array)\<close>.\<close>

definition Set_of_array :: "Room list \<Rightarrow> Room list" where
  "Set_of_array xs = foldl (\<lambda>s r. Set_add r s) [] xs"

text \<open>A \<open>Room | Room[]\<close> argument (\<open>Array.isArray(room)\<close>).\<close>

datatype RoomArg = OneRoom Room | ManyRooms "Room list"

text \<open>
  \<open>new BroadcastOperator(adapter, rooms, exceptRooms, flags)\<close> with all four arguments,
  and with the adapter alone, where the defaults \<open>new Set()\<close>, \<open>new Set()\<close> and \<open>{}\<close> are
  built.
\<close>

definition new_BroadcastOperator :: "heap \<Rightarrow> nat \<Rightarrow> nat \<Rightarrow> nat \<Rightarrow> nat \<Rightarrow> heap \<times> nat" where
  "new_BroadcastOperator h adapter rs exceptRooms flags =
     alloc h (OperatorCell \<lparr>op_adapter = adapter, op_rooms = rs,
       op_exceptRooms = exceptRooms, op_flags = flags\<rparr>)"

definition new_BroadcastOperator_default :: "heap \<Rightarrow> nat \<Rightarrow> heap \<times> nat" where
  "new_BroadcastOperator_default h adapter =
     (let (h1, rs) = alloc h (SetCell []);
          (h2, exceptRooms) = alloc h1 (SetCell []);
          (h3, flags) = alloc h2 (FlagsCell no_flags)
      in new_BroadcastOperator h3 adapter rs exceptRooms flags)"

subsection \<open>The chaining methods\<close>

text \<open>
  Each method takes the store and the address of \<open>this\<close> and gives the new store and
  the address of the operator it returns. \<open>None\<close> stands for a receiver that is not an
  operator with its two sets and its flags in the store, which a typed caller cannot
  produce.
\<close>

definition bo_to :: "heap \<Rightarrow> nat \<Rightarrow> RoomArg \<Rightarrow> (heap \<times> nat) option" where
  "bo_to h this room =
     (case get_Operator h this of
        None \<Rightarrow> None
      | Some self \<Rightarrow>
          (case get_Set h (op_rooms self) of
             None \<Rightarrow> None
           | Some old \<Rightarrow>
               (let (h1, rs) = alloc h (SetCell old);
                    h2 = (case room of
                            ManyRooms arr \<Rightarrow> foldl (\<lambda>h' r. Set_add_at h' rs r) h1 arr
                          | OneRoom r \<Rightarrow> Set_add_at h1 rs r)
                in Some (new_BroadcastOperator h2 (op_adapter self) rs
                           (op_exceptRooms self) (op_flags self)))))"

definition bo_in :: "heap \<Rightarrow> nat \<Rightarrow> RoomArg \<Rightarrow> (heap \<times> nat) option" where
  "bo_in h this room = bo_to h this room"

definition bo_except :: "heap \<Rightarrow> nat \<Rightarrow> RoomArg \<Rightarrow> (heap \<times> nat) option" where
  "bo_except h this room =
     (case get_Operator h this of
        None \<Rightarrow> None
      | Some self \<Rightarrow>
          (case get_Set h (op_exceptRooms self) of
             None \<Rightarrow> None
           | Some old \<Rightarrow>
               (let (h1, exceptRooms) = alloc h (SetCell old);
                    h2 = (case room of
                            ManyRooms arr \<Rightarrow> foldl (\<lambda>h' r. Set_add_at h' exceptRooms r) h1 arr
                          | OneRoom r \<Rightarrow> Set_add_at h1 exceptRooms r)
                in Some (new_BroadcastOperator h2 (op_adapter self) (op_rooms self)
                           exceptRooms (op_flags self)))))"

text \<open>
  \<open>Object.assign({}, this.flags, {...})\<close>: a new flags object, the fields of
  \<open>this.flags\<close> copied and one of them overwritten by \<open>upd\<close>.
\<close>

definition with_flags ::
  "heap \<Rightarrow> nat \<Rightarrow> (BroadcastFlags \<Rightarrow> BroadcastFlags) \<Rightarrow> (heap \<times> nat) option" where
  "with_flags h this upd =
     (case get_Operator h this of
        None \<Rightarrow> None
      | Some self \<Rightarrow>
          (case get_Flags h (op_flags self) of
             None \<Rightarrow> None
           | Some old \<Rightarrow>
               (let (h1, flags) = alloc h (FlagsCell (upd old))
                in Some (new_BroadcastOperator h1 (op_adapter self) (op_rooms self)
                           (op_exceptRooms self) flags))))"

definition bo_compress :: "heap \<Rightarrow> nat \<Rightarrow> bool \<Rightarrow> (heap \<times> nat) option" where
  "bo_compress h this c = with_flags h this (\<lambda>f. f\<lparr>compress := Some c\<rparr>)"

definition bo_volatile :: "heap \<Rightarrow> nat \<Rightarrow> (heap \<times> nat) option" where
  "bo_volatile h this = with_flags h this (\<lambda>f. f\<lparr>volatile := Some True\<rparr>)"

definition bo_local :: "heap \<Rightarrow> nat \<Rightarrow> (heap \<times> nat) option" where
  "bo_local h this = with_flags h this (\<lambda>f. f\<lparr>local := Some True\<rparr>)"

definition bo_timeout :: "heap \<Rightarrow> nat \<Rightarrow> int \<Rightarrow> (heap \<times> nat) option" where
  "bo_timeout h this t = with_flags h this (\<lambda>f. f\<lparr>timeout := Some t\<rparr>)"

text \<open>What an operator selects: its two sets and its flags, read through its references.\<close>

record Selector =
  sel_rooms :: "Room list"
  sel_except :: "Room list"
  sel_flags :: BroadcastFlags

definition selector :: "heap \<Rightarrow> nat \<Rightarrow> Selector option" where
  "selector h this =
     (case get_Operator h this of
        None \<Rightarrow> None
      | Some self \<Rightarrow>
          (case (get_Set h (op_rooms self), get_Set h (op_exceptRooms self),
                 get_Flags h (op_flags self)) of
             (Some rs, Some ex, Some fl) \<Rightarrow>
               Some \<lparr>sel_rooms = rs, sel_except = ex, sel_flags = fl\<rparr>
           | _ \<Rightarrow> None))"

text \<open>
  A chaining call left its receiver as it was: the call returned, every object of the
  old store is unchanged in the new one, the operator returned is a new object, and the
  receiver selects what it selected before.
\<close>

definition receiver_untouched :: "heap \<Rightarrow> nat \<Rightarrow> (heap \<times> nat) option \<Rightarrow> bool" where
  "receiver_untouched h this r =
     (case r of
        None \<Rightarrow> False
      | Some (h', b) \<Rightarrow>
          prefix h h' \<and> length h \<le> b \<and> get_Operator h' b \<noteq> None \<and>
          get_Operator h' this = get_Operator h this \<and>
          selector h' this = selector h this)"

text \<open>
  The spec's example: \<open>operator = new BroadcastOperator(adapter)\<close> in an empty store,
  \<open>a = operator.to("x")\<close> and \<open>b = a.to("y")\<close>.
\<close>

definition heap_operator :: heap where
  "heap_operator = [SetCell [], SetCell [], FlagsCell no_flags,
     OperatorCell \<lparr>op_adapter = 0, op_rooms = 0, op_exceptRooms = 1, op_flags = 2\<rparr>]"

definition heap_a :: heap where
  "heap_a = heap_operator @ [SetCell [''x''],
     OperatorCell \<lparr>op_adapter = 0, op_rooms = 4, op_exceptRooms = 1, op_flags = 2\<rparr>]"

definition heap_b :: heap where
  "heap_b = heap_a @ [SetCell [''x'', ''y''],
     OperatorCell \<lparr>op_adapter = 0, op_rooms = 6, op_exceptRooms = 1, op_flags = 2\<rparr>]"

subsection \<open>emit\<close>

text \<open>
  An argument of \<open>emit\<close> is a string, some other value, or a function
  (\<open>typeof x === "function"\<close>); \<open>data = [ev, ...args]\<close> is a list of them.
\<close>

datatype ('v, 'f) js_value = Str string | Val 'v | Fun 'f

text \<open>
  What \<open>emit\<close> calls, in order: \<open>adapter.broadcast(packet, opts)\<close>,
  \<open>setTimeout(..., this.flags.timeout)\<close> for the timer of the callback \<open>ack\<close>,
  \<open>adapter.broadcastWithAck(packet, opts, ...)\<close> and \<open>adapter.serverCount()\<close>.
\<close>

datatype ('v, 'f) emit_effect =
    AdapterBroadcast "('v, 'f) js_value list Packet" BroadcastOptions
  | SetTimeout 'f "int option"
  | AdapterBroadcastWithAck "('v, 'f) js_value list Packet" BroadcastOptions
  | AdapterServerCount

definition reserved_event_message :: "string \<Rightarrow> string" where
  "reserved_event_message ev = [CHR 0x22] @ ev @ [CHR 0x22] @ '' is a reserved event name''"

definition selector_opts :: "Selector \<Rightarrow> BroadcastOptions" where
  "selector_opts sel = \<lparr>opts_rooms = sel_rooms sel, opts_except = Some (sel_except sel),
     opts_flags = Some (sel_flags sel)\<rparr>"

text \<open>
  \<open>emit\<close> on an operator that selects \<open>sel\<close>. \<open>RESERVED_EVENTS\<close> is imported from a file
  that is not in the sources and is a parameter. The result is the calls made and then
  the exception thrown or the value returned. \<open>data.pop()\<close> takes the callback off the
  array that \<open>packet.data\<close> refers to.
\<close>

definition emit ::
  "string set \<Rightarrow> Selector \<Rightarrow> string \<Rightarrow> ('v, 'f) js_value list \<Rightarrow>
   ('v, 'f) emit_effect list \<times> (error + bool)" where
  "emit RESERVED_EVENTS sel ev args =
     (if ev \<in> RESERVED_EVENTS then ([], Inl (Error (reserved_event_message ev)))
      else
        (let data' = Str ev # args;
             packet = \<lparr>ptype = EVENT, data = data', nsp = None\<rparr>
         in case last data' of
              Fun ack \<Rightarrow>
                ([SetTimeout ack (timeout (sel_flags sel)),
                  AdapterBroadcastWithAck (packet\<lparr>data := butlast data'\<rparr>) (selector_opts sel),
                  AdapterServerCount],
                 Inr True)
            | _ \<Rightarrow> ([AdapterBroadcast packet (selector_opts sel)], Inr True)))"

text \<open>The reserved names of the socket library, for the evaluations below.\<close>

definition socket_reserved_events :: "string set" where
  "socket_reserved_events = {''connect'', ''connect_error'', ''disconnect'',
     ''disconnecting'', ''newListener'', ''removeListener''}"

subsection \<open>The acknowledgement closure of emit\<close>

text \<open>
  The variables an acknowledgement-seeking \<open>emit\<close> closes over: \<open>timedOut\<close>,
  \<open>responses\<close>, the timer, the three counters, and, to observe the callback, the list of
  the calls \<open>ack.apply(this, [err, value])\<close> made so far. A call records the array as it
  is when the call is made; the callback is handed the \<open>responses\<close> array itself.
\<close>

datatype timer_state = Pending | Cleared | Fired

datatype 'r js_result = Null | Undefined | Single 'r | Array "'r list"

record 'r ack_call =
  ack_err :: "error option"
  ack_value :: "'r js_result"

record 'r ack_state =
  timedOut :: bool
  responses :: "'r list"
  timer :: timer_state
  expectedServerCount :: int
  actualServerCount :: int
  expectedClientCount :: int
  ack_calls :: "'r ack_call list"

definition ack_start :: "'r ack_state" where
  "ack_start = \<lparr>timedOut = False, responses = [], timer = Pending,
     expectedServerCount = - 1, actualServerCount = 0, expectedClientCount = 0,
     ack_calls = []\<rparr>"

text \<open>\<open>clearTimeout\<close> cancels a pending timer and does nothing to another.\<close>

definition clearTimeout :: "timer_state \<Rightarrow> timer_state" where
  "clearTimeout t = (case t of Pending \<Rightarrow> Cleared | _ \<Rightarrow> t)"

text \<open>\<open>responses[0]\<close>, which is \<open>undefined\<close> for an empty array.\<close>

definition first_response :: "'r list \<Rightarrow> 'r js_result" where
  "first_response rs = (case rs of [] \<Rightarrow> Undefined | r # _ \<Rightarrow> Single r)"

definition complete :: "'r ack_state \<Rightarrow> bool" where
  "complete s \<longleftrightarrow>
     \<not> timedOut s \<and> expectedServerCount s = actualServerCount s \<and>
     int (length (responses s)) = expectedClientCount s"

definition checkCompleteness :: "BroadcastFlags \<Rightarrow> 'r ack_state \<Rightarrow> 'r ack_state" where
  "checkCompleteness flags s =
     (if complete s then
        s\<lparr>timer := clearTimeout (timer s),
          ack_calls := ack_calls s @
            [\<lparr>ack_err = None,
              ack_value = (if expectSingleResponse flags = Some True
                           then first_response (responses s) else Array (responses s))\<rparr>]\<rparr>
      else s)"

text \<open>
  The four things that can happen to the closure: the adapter reports a server with its
  client count, a client's response arrives, the \<open>serverCount()\<close> promise resolves, the
  timer expires. A timer that was cleared or has fired does not expire.
\<close>

datatype 'r ack_event =
    ServerResponded int
  | ClientResponded 'r
  | ServerCountResolved int
  | TimerExpired

definition timeout_error :: error where
  "timeout_error = Error ''operation has timed out''"

fun ack_step :: "BroadcastFlags \<Rightarrow> 'r ack_state \<Rightarrow> 'r ack_event \<Rightarrow> 'r ack_state" where
  "ack_step flags s (ServerResponded clientCount) =
     checkCompleteness flags
       (s\<lparr>expectedClientCount := expectedClientCount s + clientCount,
          actualServerCount := actualServerCount s + 1\<rparr>)"
| "ack_step flags s (ClientResponded clientResponse) =
     checkCompleteness flags (s\<lparr>responses := responses s @ [clientResponse]\<rparr>)"
| "ack_step flags s (ServerCountResolved serverCount) =
     checkCompleteness flags (s\<lparr>expectedServerCount := serverCount\<rparr>)"
| "ack_step flags s TimerExpired =
     (if timer s = Pending then
        s\<lparr>timedOut := True, timer := Fired,
          ack_calls := ack_calls s @
            [\<lparr>ack_err = Some timeout_error,
              ack_value = (if expectSingleResponse flags = Some True
                           then Null else Array (responses s))\<rparr>]\<rparr>
      else s)"

definition ack_run :: "BroadcastFlags \<Rightarrow> 'r ack_state \<Rightarrow> 'r ack_event list \<Rightarrow> 'r ack_state" where
  "ack_run flags s es = foldl (ack_step flags) s es"

text \<open>The reports of an event list, each kind in arrival order.\<close>

fun client_responses :: "'r ack_event list \<Rightarrow> 'r list" where
  "client_responses [] = []"
| "client_responses (ClientResponded r # es) = r # client_responses es"
| "client_responses (_ # es) = client_responses es"

fun server_reports :: "'r ack_event list \<Rightarrow> int list" where
  "server_reports [] = []"
| "server_reports (ServerResponded c # es) = c # server_reports es"
| "server_reports (_ # es) = server_reports es"

fun server_counts :: "'r ack_event list \<Rightarrow> int list" where
  "server_counts [] = []"
| "server_counts (ServerCountResolved n # es) = n # server_counts es"
| "server_counts (_ # es) = server_counts es"

fun is_TimerExpired :: "'r ack_event \<Rightarrow> bool" where
  "is_TimerExpired TimerExpired = True"
| "is_TimerExpired _ = False"

subsection \<open>The remote socket handle\<close>

record ('hs, 'sd) SocketDetails =
  sd_id :: SocketId
  sd_handshake :: 'hs
  sd_rooms :: "Room list"
  sd_data :: 'sd

record ('hs, 'sd) RemoteSocket =
  rs_id :: SocketId
  rs_handshake :: 'hs
  rs_rooms :: nat
  rs_data :: 'sd
  rs_operator :: nat

definition new_RemoteSocket ::
  "heap \<Rightarrow> nat \<Rightarrow> ('hs, 'sd) SocketDetails \<Rightarrow> heap \<times> ('hs, 'sd) RemoteSocket" where
  "new_RemoteSocket h adapter details =
     (let (h1, rs) = alloc h (SetCell (Set_of_array (sd_rooms details)));
          (h2, target) = alloc h1 (SetCell (Set_of_array [sd_id details]));
          (h3, exceptRooms) = alloc h2 (SetCell []);
          (h4, flags) = alloc h3 (FlagsCell (no_flags\<lparr>expectSingleResponse := Some True\<rparr>));
          (h5, operator) = new_BroadcastOperator h4 adapter target exceptRooms flags
      in (h5, \<lparr>rs_id = sd_id details, rs_handshake = sd_handshake details, rs_rooms = rs,
                rs_data = sd_data details, rs_operator = operator\<rparr>))"

text \<open>\<open>RemoteSocket.emit\<close> is \<open>this.operator.emit(ev, ...args)\<close>.\<close>

definition RemoteSocket_emit ::
  "string set \<Rightarrow> heap \<Rightarrow> ('hs, 'sd) RemoteSocket \<Rightarrow> string \<Rightarrow> ('v, 'f) js_value list \<Rightarrow>
   (('v, 'f) emit_effect list \<times> (error + bool)) option" where
  "RemoteSocket_emit RESERVED_EVENTS h this ev args =
     map_option (\<lambda>sel. emit RESERVED_EVENTS sel ev args) (selector h (rs_operator this))"

text \<open>
  The timer is pending exactly as long as the callback has not been called, and
  \<open>timedOut\<close> is set exactly when the timer has fired.
\<close>

definition timer_inv :: "'r ack_state \<Rightarrow> bool" where
  "timer_inv s \<longleftrightarrow> (timer s = Pending \<longleftrightarrow> ack_calls s = []) \<and> (timedOut s \<longleftrightarrow> timer s = Fired)"


text \<open>
  Inputs for the evaluations below: the flags object a remote socket handle builds,
  and the spec's scenario of two servers reporting 3 and 2 clients, with all five
  responses and with four of them.
\<close>

definition remote_flags :: BroadcastFlags where
  "remote_flags = no_flags\<lparr>expectSingleResponse := Some True\<rparr>"

definition five_acks :: "string ack_event list" where
  "five_acks = [ClientResponded ''r1'', ServerResponded 3, ClientResponded ''r2'',
     ServerCountResolved 2, ClientResponded ''r3'', ServerResponded 2,
     ClientResponded ''r4'', ClientResponded ''r5'']"

definition four_acks :: "string ack_event list" where
  "four_acks = [ServerResponded 3, ClientResponded ''r1'', ServerCountResolved 2,
     ClientResponded ''r2'', ServerResponded 2, ClientResponded ''r3'', ClientResponded ''r4'']"

text \<open>
  An operator's selection without flags, and a remote socket handle built in an empty
  store from the details of the connection \<open>abc\<close>.
\<close>

definition plain_selector :: Selector where
  "plain_selector = \<lparr>sel_rooms = [''room-101''], sel_except = [], sel_flags = no_flags\<rparr>"

definition details_abc :: "(unit, unit) SocketDetails" where
  "details_abc = \<lparr>sd_id = ''abc'', sd_handshake = (), sd_rooms = [''abc'', ''room1''],
     sd_data = ()\<rparr>"

definition handle_abc :: "(unit, unit) RemoteSocket" where
  "handle_abc = \<lparr>rs_id = ''abc'', rs_handshake = (), rs_rooms = 0, rs_data = (),
     rs_operator = 4\<rparr>"

definition heap_abc :: heap where
  "heap_abc = [SetCell [''abc'', ''room1''], SetCell [''abc''], SetCell [],
     FlagsCell remote_flags,
     OperatorCell \<lparr>op_adapter = 0, op_rooms = 1, op_exceptRooms = 2, op_flags = 3\<rparr>]"

section \<open>Properties of the adapter patch\<close>

lemma filter_is_Publish_map_Publish:
  "filter is_Publish (map (\<lambda>x. Publish (t x) (p x) (b x)) xs) =
   map (\<lambda>x. Publish (t x) (p x) (b x)) xs"
  by (induction xs) simp_all

lemma filter_is_Publish_map_Write:
  "filter is_Publish (map (\<lambda>x. WriteToEngine (c x) (f x) (po x)) xs) = []"
  by (induction xs) simp_all

lemma list_ex_OrigBroadcast_map_Publish:
  "\<not> list_ex is_OrigBroadcast (map (\<lambda>x. Publish (t x) (p x) (b x)) xs)"
  by (induction xs) simp_all

lemma list_ex_OrigBroadcast_map_Write:
  "\<not> list_ex is_OrigBroadcast (map (\<lambda>x. WriteToEngine (c x) (f x) (po x)) xs)"
  by (induction xs) simp_all

text \<open>
  C1. \<open>broadcast\<close> takes the fast publish path exactly when the selector has at most one
  room and an \<open>except\<close> set that is present and empty; on that path it calls
  \<open>app.publish\<close> once per frame of the packet encoded once (with its namespace
  stamped), whatever sockets \<open>apply\<close> matches.
\<close>

theorem broadcast_fast_path_iff:
  "(took_fast_path (broadcast encode apply_sockets this packet opts) \<longleftrightarrow>
      length (opts_rooms opts) \<le> 1 \<and> opts_except opts = Some []) \<and>
   (length (opts_rooms opts) \<le> 1 \<and> opts_except opts = Some [] \<longrightarrow>
      (\<exists>effs. broadcast encode apply_sockets this packet opts = Inr effs \<and>
         publish_calls effs = length (encode (packet\<lparr>nsp := Some (nsp_name this)\<rparr>))))"
proof -
  have generic: "\<not> took_fast_path (Inr [OrigBroadcast packet opts])"
    by (simp add: took_fast_path_def)
  show ?thesis
  proof (cases "length (opts_rooms opts) \<le> 1")
    case False
    then have "broadcast encode apply_sockets this packet opts = Inr [OrigBroadcast packet opts]"
      by (simp add: broadcast_def useFastPublish_def)
    with False generic show ?thesis by simp
  next
    case small: True
    show ?thesis
    proof (cases "opts_except opts")
      case None
      with small have "broadcast encode apply_sockets this packet opts = Inl TypeError"
        by (simp add: broadcast_def useFastPublish_def)
      with None show ?thesis by (simp add: took_fast_path_def)
    next
      case (Some exc)
      show ?thesis
      proof (cases "exc = []")
        case False
        with small Some
        have "broadcast encode apply_sockets this packet opts = Inr [OrigBroadcast packet opts]"
          by (simp add: broadcast_def useFastPublish_def)
        with False Some generic show ?thesis by simp
      next
        case True
        with small Some show ?thesis
          by (simp add: broadcast_def useFastPublish_def took_fast_path_def publish_calls_def
              Let_def filter_is_Publish_map_Publish filter_is_Publish_map_Write
              list_ex_OrigBroadcast_map_Publish list_ex_OrigBroadcast_map_Write)
      qed
    qed
  qed
qed

theorem broadcast_fast_path_iff_witness:
  "length (opts_rooms room_a_opts) \<le> 1 \<and> opts_except room_a_opts = Some [] \<and>
   took_fast_path (broadcast two_frames three_sockets chat_adapter hello_packet room_a_opts) \<and>
   (\<exists>effs. broadcast two_frames three_sockets chat_adapter hello_packet room_a_opts = Inr effs \<and>
      publish_calls effs = 2)"
  using broadcast_fast_path_iff [of two_frames three_sockets chat_adapter hello_packet room_a_opts]
  by (simp add: room_a_opts_def two_frames_def numeral_2_eq_2)

lemma base_addAll_keeps_namespace:
  "nsp_sockets (base_addAll this id' rs) = nsp_sockets this"
  "nsp_name (base_addAll this id' rs) = nsp_name this"
  by (simp_all add: base_addAll_def)

lemma base_del_keeps_namespace:
  "nsp_sockets (base_del this id' room) = nsp_sockets this"
  "nsp_name (base_del this id' room) = nsp_name this"
  by (simp_all add: base_del_def)

lemma chat_adapter_fields:
  "nsp_sockets chat_adapter ''s1'' = Some socket_s1"
  "nsp_sockets chat_adapter ''s2'' = Some socket_s2"
  "nsp_sockets chat_adapter ''s9'' = None"
  "sids chat_adapter ''s1'' = Some {''a''}"
  "sids chat_adapter ''s2'' = None"
  "sids chat_adapter ''s9'' = None"
  "nsp_name chat_adapter = ''/chat''"
  by (simp_all add: chat_adapter_def)

text \<open>
  With the uWebSockets library (\<open>useWsLibrary\<close> false) and a socket for the identifier
  in \<open>this.nsp.sockets\<close>, \<open>addAll\<close> runs the original \<open>addAll\<close> and then, for a
  connection that had no entry in \<open>sids\<close> before the call, subscribes the socket's
  websocket to the namespace name once, then to the topic of every room of the argument
  in order, and last calls the logger with the namespace name and \<open>socket.id\<close>; for a
  connection that had an entry it makes the room subscriptions only.
\<close>

lemma addAll_live_socket_uWebSockets:
  assumes "nsp_sockets (orig this id' rs) id' = Some socket"
  shows "fst (addAll orig False this id' rs :: Adapter \<times> (error + 'd adapter_effect list)) =
      orig this id' rs \<and>
    snd (addAll orig False this id' rs :: Adapter \<times> (error + 'd adapter_effect list)) =
      Inr (if sids this id' = None
       then Subscribe (transport_socket socket) (nsp_name (orig this id' rs)) #
            map (\<lambda>room. Subscribe (transport_socket socket)
                   (nsp_name (orig this id' rs) @ SEPARATOR @ room)) rs @
            [LogConnection (nsp_name (orig this id' rs)) (socket_id socket)]
       else map (\<lambda>room. Subscribe (transport_socket socket)
                   (nsp_name (orig this id' rs) @ SEPARATOR @ room)) rs)"
  using assms
  by (simp add: addAll_def handleUWebSockets_def Let_def)

text \<open>
  With the \<open>ws\<close> library (\<open>useWsLibrary\<close> true) and a socket for the identifier, \<open>addAll\<close>
  throws as soon as it has a subscription to make: for a new connection, and for any
  connection when the argument has a room.
\<close>

lemma addAll_live_socket_ws:
  assumes "nsp_sockets (orig this id' rs) id' = Some socket"
    and "sids this id' = None \<or> rs \<noteq> []"
  shows "(addAll orig True this id' rs :: Adapter \<times> (error + 'd adapter_effect list)) =
      (orig this id' rs, Inl TypeError)"
  using assms
  by (auto simp: addAll_def handleWsLibrary_def WsWebSocket_calls_def Let_def
      split: list.splits)

text \<open>
  C6 fails on the code with the \<open>ws\<close> library. The socket \<open>s2\<close> is live and has no entry
  in \<open>sids\<close>; \<open>addAll("s2", {"a", "b"})\<close> installed with \<open>useWsLibrary\<close> true throws a
  \<open>TypeError\<close> at the first \<open>websocket.subscribe\<close>, after the membership change and
  before any subscription or the logger call. The same call installed for uWebSockets
  subscribes to the namespace name, then to the two room topics, and calls the logger,
  as the claim says.
\<close>

theorem addAll_ws_library_throws:
  "nsp_sockets (base_addAll chat_adapter ''s2'' [''a'', ''b'']) ''s2'' = Some socket_s2 \<and>
   sids chat_adapter ''s2'' = None \<and>
   (addAll base_addAll True chat_adapter ''s2'' [''a'', ''b'']
      :: Adapter \<times> (error + unit adapter_effect list)) =
     (base_addAll chat_adapter ''s2'' [''a'', ''b''], Inl TypeError) \<and>
   snd (addAll base_addAll False chat_adapter ''s2'' [''a'', ''b'']
      :: Adapter \<times> (error + unit adapter_effect list)) =
     Inr [Subscribe 8 ''/chat'', Subscribe 8 (''/chat'' @ SEPARATOR @ ''a''),
          Subscribe 8 (''/chat'' @ SEPARATOR @ ''b''), LogConnection ''/chat'' ''s2'']"
proof -
  have live: "nsp_sockets (base_addAll chat_adapter ''s2'' [''a'', ''b'']) ''s2'' = Some socket_s2"
    by (simp add: base_addAll_keeps_namespace chat_adapter_fields)
  have new: "sids chat_adapter ''s2'' = None"
    by (simp add: chat_adapter_fields)
  show ?thesis
    using live new
      addAll_live_socket_ws [of base_addAll chat_adapter "''s2''" "[''a'', ''b'']" socket_s2,
        where ?'d = unit]
      addAll_live_socket_uWebSockets [of base_addAll chat_adapter "''s2''" "[''a'', ''b'']"
        socket_s2, where ?'d = unit]
    by (simp add: base_addAll_keeps_namespace chat_adapter_fields socket_s2_def)
qed

lemma members_base_addAll:
  "members (base_addAll this id' rs) room =
     (if room \<in> set rs then insert id' (members this room) else members this room)"
  by (simp add: members_def base_addAll_def)

lemma rooms_of_base_addAll:
  "rooms_of (base_addAll this id' rs) i =
     (if i = id' then rooms_of this i \<union> set rs else rooms_of this i)"
  by (simp add: rooms_of_def base_addAll_def)

lemma members_base_del:
  "members (base_del this id' room) r =
     (if r = room then members this r - {id'} else members this r)"
  by (auto simp add: members_def base_del_def split: option.splits)

lemma rooms_of_base_del:
  "rooms_of (base_del this id' room) i =
     (if i = id' then rooms_of this i - {room} else rooms_of this i)"
  by (auto simp add: rooms_of_def base_del_def split: option.splits)

text \<open>
  C10. When \<open>this.nsp.sockets\<close> has no socket for the identifier, \<open>addAll\<close> returns right
  after the original \<open>addAll\<close>: the adapter is the one the original leaves, nothing is
  thrown, nothing is subscribed and the logger is not called, whether or not the
  connection had an entry in \<open>sids\<close>. With the original modelled from the spec, the
  connection is then a member of every room of the argument and has its membership
  record.
\<close>

theorem addAll_without_socket:
  "(nsp_sockets (orig this id' rs) id' = None \<longrightarrow>
      (addAll orig useWsLibrary this id' rs :: Adapter \<times> (error + 'd adapter_effect list)) =
        (orig this id' rs, Inr [])) \<and>
   (nsp_sockets this id' = None \<longrightarrow>
      (addAll base_addAll useWsLibrary this id' rs
         :: Adapter \<times> (error + 'd adapter_effect list)) =
        (base_addAll this id' rs, Inr []) \<and>
      (\<forall>room \<in> set rs. id' \<in> members (base_addAll this id' rs) room) \<and>
      rooms_of (base_addAll this id' rs) id' = rooms_of this id' \<union> set rs \<and>
      sids (base_addAll this id' rs) id' \<noteq> None)"
proof -
  have general: "nsp_sockets (orig this id' rs) id' = None \<Longrightarrow>
      (addAll orig useWsLibrary this id' rs :: Adapter \<times> (error + 'd adapter_effect list)) =
        (orig this id' rs, Inr [])" for orig
    by (simp add: addAll_def Let_def)
  have entry: "sids (base_addAll this id' rs) id' \<noteq> None"
    by (simp add: base_addAll_def)
  show ?thesis
    using general [of orig] general [of base_addAll] entry
    by (simp add: base_addAll_keeps_namespace members_base_addAll rooms_of_base_addAll)
qed

theorem addAll_without_socket_witness:
  "nsp_sockets chat_adapter ''s9'' = None \<and> sids chat_adapter ''s9'' = None \<and>
   snd (addAll base_addAll False chat_adapter ''s9'' [''a'', ''b'']
          :: Adapter \<times> (error + unit adapter_effect list)) = Inr [] \<and>
   members (fst (addAll base_addAll False chat_adapter ''s9'' [''a'', ''b'']
          :: Adapter \<times> (error + unit adapter_effect list))) ''a'' = {''s9'', ''s1''} \<and>
   members (fst (addAll base_addAll False chat_adapter ''s9'' [''a'', ''b'']
          :: Adapter \<times> (error + unit adapter_effect list))) ''b'' = {''s9''}"
  using addAll_without_socket [of base_addAll chat_adapter "''s9''" "[''a'', ''b'']" False,
      where ?'d = unit]
  by (simp add: base_addAll_keeps_namespace chat_adapter_fields members_base_addAll)
     (simp add: members_def chat_adapter_def)

text \<open>
  C7, as the claim states it, fails: \<open>s1\<close> is live and not in room \<open>b\<close>, and
  \<open>del("s1", "b")\<close>, installed for uWebSockets, still calls \<open>unsubscribe\<close> on its
  websocket, so the call is not without effect.
\<close>

theorem del_not_member_counterexample:
  "''s1'' \<notin> members chat_adapter ''b'' \<and>
   snd (del base_del False chat_adapter ''s1'' ''b''
      :: Adapter \<times> (error + unit adapter_effect list)) =
     Inr [Unsubscribe 7 (''/chat'' @ SEPARATOR @ ''b'')] \<and>
   (del base_del False chat_adapter ''s1'' ''b''
      :: Adapter \<times> (error + unit adapter_effect list)) \<noteq> (chat_adapter, Inr [])"
proof -
  have effs: "snd (del base_del False chat_adapter ''s1'' ''b''
      :: Adapter \<times> (error + unit adapter_effect list)) =
      Inr [Unsubscribe 7 (''/chat'' @ SEPARATOR @ ''b'')]"
    by (simp add: del_def Let_def base_del_keeps_namespace chat_adapter_fields
        unsubscribeUWebSockets_def socket_s1_def)
  have "''s1'' \<notin> members chat_adapter ''b''"
    by (simp add: members_def chat_adapter_def)
  moreover have "(del base_del False chat_adapter ''s1'' ''b''
      :: Adapter \<times> (error + unit adapter_effect list)) \<noteq> (chat_adapter, Inr [])"
  proof
    assume "(del base_del False chat_adapter ''s1'' ''b''
      :: Adapter \<times> (error + unit adapter_effect list)) = (chat_adapter, Inr [])"
    then have "snd (del base_del False chat_adapter ''s1'' ''b''
      :: Adapter \<times> (error + unit adapter_effect list)) = Inr []" by simp
    with effs show False by simp
  qed
  ultimately show ?thesis using effs by simp
qed

text \<open>
  C7, amended. Installed for uWebSockets (\<open>useWsLibrary\<close> false), \<open>del\<close> runs the
  original \<open>del\<close> on the adapter and then, when \<open>this.nsp.sockets\<close> holds a socket for
  the identifier, calls \<open>unsubscribe\<close> once on its websocket, for the topic
  \<open>socket.nsp.name + SEPARATOR + room\<close>, and makes no other call; it does so whether or
  not the connection was in the room. With the original modelled from the spec, the
  connection is removed from the room's membership set and from no other, and for a
  connection that is not in the room the membership sets stay as they were. What \<open>del\<close>
  does with the \<open>ws\<close> library is left out here.
\<close>

theorem del_unsubscribes_one_topic:
  "fst (del orig False this id' room :: Adapter \<times> (error + 'd adapter_effect list)) =
     orig this id' room \<and>
   snd (del orig False this id' room :: Adapter \<times> (error + 'd adapter_effect list)) =
     Inr (case nsp_sockets (orig this id' room) id' of
        None \<Rightarrow> []
      | Some socket \<Rightarrow>
          [Unsubscribe (transport_socket socket) (socket_nsp_name socket @ SEPARATOR @ room)]) \<and>
   (\<forall>r. members (base_del this id' room) r =
      (if r = room then members this r - {id'} else members this r)) \<and>
   (id' \<notin> members this room \<longrightarrow>
      (\<forall>r. members (base_del this id' room) r = members this r))"
  by (simp add: del_def Let_def unsubscribeUWebSockets_def members_base_del
      split: option.splits)

theorem del_unsubscribes_one_topic_witness:
  "''s1'' \<notin> members chat_adapter ''b'' \<and>
   (\<forall>r. members (base_del chat_adapter ''s1'' ''b'') r = members chat_adapter r) \<and>
   snd (del base_del False chat_adapter ''s1'' ''b''
     :: Adapter \<times> (error + unit adapter_effect list)) =
     Inr [Unsubscribe 7 (''/chat'' @ SEPARATOR @ ''b'')] \<and>
   members (fst (del base_del False chat_adapter ''s1'' ''a''
     :: Adapter \<times> (error + unit adapter_effect list))) ''a'' = {} \<and>
   snd (del base_del False chat_adapter ''s1'' ''a''
     :: Adapter \<times> (error + unit adapter_effect list)) =
     Inr [Unsubscribe 7 (''/chat'' @ SEPARATOR @ ''a'')]"
proof -
  have notin: "''s1'' \<notin> members chat_adapter ''b''"
    by (simp add: members_def chat_adapter_def)
  have in_a: "members chat_adapter ''a'' = {''s1''}"
    by (simp add: members_def chat_adapter_def)
  show ?thesis
    using notin in_a
      del_unsubscribes_one_topic [of base_del chat_adapter "''s1''" "''b''",
        where ?'d = unit]
      del_unsubscribes_one_topic [of base_del chat_adapter "''s1''" "''a''",
        where ?'d = unit]
    by (simp add: base_del_keeps_namespace chat_adapter_fields socket_s1_def)
qed

text \<open>
  With the \<open>ws\<close> library and a socket for the identifier, \<open>del\<close> throws at
  \<open>websocket.unsubscribe\<close>, after the original \<open>del\<close> has run.
\<close>

lemma del_live_socket_ws:
  assumes "nsp_sockets (orig this id' room) id' = Some socket"
  shows "(del orig True this id' room :: Adapter \<times> (error + 'd adapter_effect list)) =
      (orig this id' room, Inl TypeError)"
  using assms
  by (simp add: del_def unsubscribeWsLibrary_def WsWebSocket_calls_def Let_def)

section \<open>Properties of the broadcast operator\<close>

subsection \<open>The store\<close>


lemma length_Set_add_at [simp]: "length (Set_add_at h a r) = length h"
  by (simp add: Set_add_at_def split: option.splits)

lemma prefix_Set_add_at:
  assumes "prefix h0 h" "length h0 \<le> a"
  shows "prefix h0 (Set_add_at h a r)"
proof -
  from assms(1) obtain t where h: "h = h0 @ t" by (auto simp: prefix_def)
  show ?thesis
    using assms(2) by (simp add: Set_add_at_def h list_update_append split: option.splits)
qed

lemma length_foldl_Set_add_at [simp]:
  "length (foldl (\<lambda>h' r. Set_add_at h' a r) h arr) = length h"
  by (induction arr arbitrary: h) simp_all

lemma prefix_foldl_Set_add_at:
  "prefix h0 h \<Longrightarrow> length h0 \<le> a \<Longrightarrow> prefix h0 (foldl (\<lambda>h' r. Set_add_at h' a r) h arr)"
  by (induction arr arbitrary: h) (simp_all add: prefix_Set_add_at)

lemma prefix_nth: "prefix h h' \<Longrightarrow> a < length h \<Longrightarrow> h' ! a = h ! a"
  by (auto simp: prefix_def nth_append)

lemma prefix_get_Set: "prefix h h' \<Longrightarrow> get_Set h a = Some s \<Longrightarrow> get_Set h' a = Some s"
  by (auto simp: get_Set_def prefix_nth dest: prefix_length_le split: if_splits)

lemma prefix_get_Flags: "prefix h h' \<Longrightarrow> get_Flags h a = Some s \<Longrightarrow> get_Flags h' a = Some s"
  by (auto simp: get_Flags_def prefix_nth dest: prefix_length_le split: if_splits)

lemma prefix_get_Operator:
  "prefix h h' \<Longrightarrow> get_Operator h a = Some s \<Longrightarrow> get_Operator h' a = Some s"
  by (auto simp: get_Operator_def prefix_nth dest: prefix_length_le split: if_splits)

lemma prefix_selector:
  assumes "prefix h h'" "selector h this \<noteq> None"
  shows "selector h' this = selector h this \<and> get_Operator h' this = get_Operator h this"
proof -
  from assms(2) obtain self rs ex fl where
    o: "get_Operator h this = Some self" and r: "get_Set h (op_rooms self) = Some rs"
    and e: "get_Set h (op_exceptRooms self) = Some ex" and f: "get_Flags h (op_flags self) = Some fl"
    by (auto simp: selector_def split: option.splits)
  show ?thesis
    using prefix_get_Operator [OF assms(1) o] prefix_get_Set [OF assms(1) r]
      prefix_get_Set [OF assms(1) e] prefix_get_Flags [OF assms(1) f] o r e f
    by (simp add: selector_def)
qed

lemma new_BroadcastOperator_fresh:
  "new_BroadcastOperator h ad rs ex fl = (h', b) \<Longrightarrow>
     prefix h h' \<and> b = length h \<and> get_Operator h' b \<noteq> None"
  by (auto simp: new_BroadcastOperator_def alloc_def get_Operator_def)

lemma receiver_untouchedI:
  assumes "selector h this \<noteq> None" "prefix h h1" "new_BroadcastOperator h1 ad rs ex fl = (h', b)"
  shows "receiver_untouched h this (Some (h', b))"
proof -
  from new_BroadcastOperator_fresh [OF assms(3)]
  have p: "prefix h1 h'" and b: "b = length h1" and ob: "get_Operator h' b \<noteq> None" by auto
  from assms(2) p have pp: "prefix h h'" by (rule prefix_order.trans)
  from assms(2) b have "length h \<le> b" by (simp add: prefix_length_le)
  with pp ob prefix_selector [OF pp assms(1)] show ?thesis
    by (simp add: receiver_untouched_def)
qed

lemma bo_to_untouched:
  assumes "selector h this \<noteq> None"
  shows "receiver_untouched h this (bo_to h this room)"
proof -
  from assms obtain self rs where
    o: "get_Operator h this = Some self" and r: "get_Set h (op_rooms self) = Some rs"
    by (auto simp: selector_def split: option.splits)
  define h2 where "h2 = (case room of
      ManyRooms arr \<Rightarrow> foldl (\<lambda>h' r. Set_add_at h' (length h) r) (h @ [SetCell rs]) arr
    | OneRoom r \<Rightarrow> Set_add_at (h @ [SetCell rs]) (length h) r)"
  have p: "prefix h h2"
    unfolding h2_def
    by (cases room) (simp_all add: prefix_Set_add_at prefix_foldl_Set_add_at)
  have eq: "bo_to h this room = Some (new_BroadcastOperator h2 (op_adapter self) (length h)
      (op_exceptRooms self) (op_flags self))"
    by (simp add: bo_to_def o r alloc_def h2_def)
  show ?thesis
    unfolding eq
    by (cases "new_BroadcastOperator h2 (op_adapter self) (length h)
      (op_exceptRooms self) (op_flags self)") (simp add: receiver_untouchedI [OF assms p])
qed

lemma bo_except_untouched:
  assumes "selector h this \<noteq> None"
  shows "receiver_untouched h this (bo_except h this room)"
proof -
  from assms obtain self rs where
    o: "get_Operator h this = Some self" and r: "get_Set h (op_exceptRooms self) = Some rs"
    by (auto simp: selector_def split: option.splits)
  define h2 where "h2 = (case room of
      ManyRooms arr \<Rightarrow> foldl (\<lambda>h' r. Set_add_at h' (length h) r) (h @ [SetCell rs]) arr
    | OneRoom r \<Rightarrow> Set_add_at (h @ [SetCell rs]) (length h) r)"
  have p: "prefix h h2"
    unfolding h2_def
    by (cases room) (simp_all add: prefix_Set_add_at prefix_foldl_Set_add_at)
  have eq: "bo_except h this room = Some (new_BroadcastOperator h2 (op_adapter self)
      (op_rooms self) (length h) (op_flags self))"
    by (simp add: bo_except_def o r alloc_def h2_def)
  show ?thesis
    unfolding eq
    by (cases "new_BroadcastOperator h2 (op_adapter self) (op_rooms self) (length h)
      (op_flags self)") (simp add: receiver_untouchedI [OF assms p])
qed

lemma with_flags_untouched:
  assumes "selector h this \<noteq> None"
  shows "receiver_untouched h this (with_flags h this upd)"
proof -
  from assms obtain self fl where
    o: "get_Operator h this = Some self" and f: "get_Flags h (op_flags self) = Some fl"
    by (auto simp: selector_def split: option.splits)
  have p: "prefix h (h @ [FlagsCell (upd fl)])" by simp
  have eq: "with_flags h this upd = Some (new_BroadcastOperator (h @ [FlagsCell (upd fl)])
      (op_adapter self) (op_rooms self) (op_exceptRooms self) (length h))"
    by (simp add: with_flags_def o f alloc_def)
  show ?thesis
    unfolding eq
    by (cases "new_BroadcastOperator (h @ [FlagsCell (upd fl)])
      (op_adapter self) (op_rooms self) (op_exceptRooms self) (length h)")
      (simp add: receiver_untouchedI [OF assms p])
qed

lemma get_Set_Set_add_at:
  "get_Set (Set_add_at h a r) a = map_option (Set_add r) (get_Set h a)"
  by (auto simp: Set_add_at_def get_Set_def split: option.splits if_splits cell.splits)

lemma get_Set_foldl_Set_add_at:
  "get_Set (foldl (\<lambda>h' r. Set_add_at h' a r) h arr) a =
     map_option (\<lambda>s. foldl (\<lambda>s r. Set_add r s) s arr) (get_Set h a)"
  by (induction arr arbitrary: h)
    (simp_all add: get_Set_Set_add_at option.map_comp comp_def option.map_ident)

text \<open>What the operator returned by \<open>to\<close> selects: the receiver's rooms with the argument added.\<close>

lemma get_Set_beyond:
  "a < length h \<Longrightarrow> get_Set (h @ t) a = get_Set h a"
  by (simp add: get_Set_def nth_append)

lemma bo_to_selects:
  assumes "selector h this = Some sel"
  shows "\<exists>h' b. bo_to h this room = Some (h', b) \<and>
    selector h' b = Some (sel\<lparr>sel_rooms :=
      (case room of OneRoom r \<Rightarrow> Set_add r (sel_rooms sel)
       | ManyRooms arr \<Rightarrow> foldl (\<lambda>s r. Set_add r s) (sel_rooms sel) arr)\<rparr>)"
proof -
  from assms obtain self where
    o: "get_Operator h this = Some self" and r: "get_Set h (op_rooms self) = Some (sel_rooms sel)"
    and e: "get_Set h (op_exceptRooms self) = Some (sel_except sel)"
    and f: "get_Flags h (op_flags self) = Some (sel_flags sel)"
    by (auto simp: selector_def split: option.splits)
  define h1 where "h1 = h @ [SetCell (sel_rooms sel)]"
  define h2 where "h2 = (case room of
      ManyRooms arr \<Rightarrow> foldl (\<lambda>h' r. Set_add_at h' (length h) r) h1 arr
    | OneRoom r \<Rightarrow> Set_add_at h1 (length h) r)"
  define new where "new = (case room of OneRoom r \<Rightarrow> Set_add r (sel_rooms sel)
       | ManyRooms arr \<Rightarrow> foldl (\<lambda>s r. Set_add r s) (sel_rooms sel) arr)"
  have g1: "get_Set h1 (length h) = Some (sel_rooms sel)"
    by (simp add: h1_def get_Set_def)
  have p: "prefix h h2"
    unfolding h2_def h1_def
    by (cases room) (simp_all add: prefix_Set_add_at prefix_foldl_Set_add_at)
  have len: "length h2 = Suc (length h)"
    unfolding h2_def h1_def by (cases room) simp_all
  have g2: "get_Set h2 (length h) = Some new"
    unfolding h2_def new_def
    by (cases room) (simp_all add: get_Set_Set_add_at get_Set_foldl_Set_add_at g1)
  let ?b = "OperatorCell \<lparr>op_adapter = op_adapter self, op_rooms = length h,
      op_exceptRooms = op_exceptRooms self, op_flags = op_flags self\<rparr>"
  have eq: "bo_to h this room = Some (h2 @ [?b], length h2)"
    unfolding h2_def h1_def
    by (simp add: bo_to_def o r alloc_def new_BroadcastOperator_def Let_def)
  have p2: "prefix h (h2 @ [?b])" using p by (simp add: prefix_order.trans)
  have "get_Set (h2 @ [?b]) (length h) = Some new"
    using g2 len by (simp add: get_Set_beyond)
  moreover have "get_Set (h2 @ [?b]) (op_exceptRooms self) = Some (sel_except sel)"
    using prefix_get_Set [OF p2 e] .
  moreover have "get_Flags (h2 @ [?b]) (op_flags self) = Some (sel_flags sel)"
    using prefix_get_Flags [OF p2 f] .
  moreover have "get_Operator (h2 @ [?b]) (length h2) = Some \<lparr>op_adapter = op_adapter self,
      op_rooms = length h, op_exceptRooms = op_exceptRooms self, op_flags = op_flags self\<rparr>"
    by (simp add: get_Operator_def)
  ultimately have "selector (h2 @ [?b]) (length h2) = Some (sel\<lparr>sel_rooms := new\<rparr>)"
    by (simp add: selector_def)
  with eq show ?thesis by (simp add: new_def)
qed

text \<open>
  C5. On a receiver that is an operator of the store, each of \<open>to\<close>, \<open>in\<close>, \<open>except\<close>,
  \<open>compress\<close>, \<open>volatile\<close>, \<open>local\<close> and \<open>timeout\<close> returns, leaves every object that
  existed before the call as it was, returns an operator object that did not exist
  before, and leaves the receiver selecting the same rooms, exclusions and flags.
\<close>

theorem chaining_never_mutates_receiver:
  assumes "selector h this \<noteq> None"
  shows "receiver_untouched h this (bo_to h this room) \<and>
    receiver_untouched h this (bo_in h this room) \<and>
    receiver_untouched h this (bo_except h this room) \<and>
    receiver_untouched h this (bo_compress h this c) \<and>
    receiver_untouched h this (bo_volatile h this) \<and>
    receiver_untouched h this (bo_local h this) \<and>
    receiver_untouched h this (bo_timeout h this t)"
  using assms
  by (simp add: bo_in_def bo_compress_def bo_volatile_def bo_local_def bo_timeout_def
      bo_to_untouched bo_except_untouched with_flags_untouched)

lemma operator_to_x:
  "new_BroadcastOperator_default [] 0 = (heap_operator, 3)"
  "bo_to heap_operator 3 (OneRoom ''x'') = Some (heap_a, 5)"
  "bo_to heap_a 5 (OneRoom ''y'') = Some (heap_b, 7)"
  by (simp_all add: new_BroadcastOperator_default_def bo_to_def heap_operator_def heap_a_def
      heap_b_def get_Operator_def get_Set_def alloc_def Set_add_at_def Set_add_def
      new_BroadcastOperator_def)

theorem chaining_never_mutates_receiver_witness:
  "selector heap_a 5 \<noteq> None \<and>
   bo_to heap_a 5 (OneRoom ''y'') = Some (heap_b, 7) \<and>
   receiver_untouched heap_a 5 (bo_to heap_a 5 (OneRoom ''y'')) \<and>
   map_option sel_rooms (selector heap_a 5) = Some [''x''] \<and>
   map_option sel_rooms (selector heap_b 5) = Some [''x''] \<and>
   map_option sel_rooms (selector heap_b 7) = Some [''x'', ''y'']"
proof -
  have a: "selector heap_a 5 =
      Some \<lparr>sel_rooms = [''x''], sel_except = [], sel_flags = no_flags\<rparr>"
    by (simp add: selector_def heap_operator_def heap_a_def get_Operator_def get_Set_def
        get_Flags_def)
  have b5: "selector heap_b 5 =
      Some \<lparr>sel_rooms = [''x''], sel_except = [], sel_flags = no_flags\<rparr>"
    by (simp add: selector_def heap_operator_def heap_a_def heap_b_def get_Operator_def
        get_Set_def get_Flags_def)
  have b7: "selector heap_b 7 =
      Some \<lparr>sel_rooms = [''x'', ''y''], sel_except = [], sel_flags = no_flags\<rparr>"
    by (simp add: selector_def heap_operator_def heap_a_def heap_b_def get_Operator_def
        get_Set_def get_Flags_def)
  have live: "selector heap_a 5 \<noteq> None" using a by simp
  show ?thesis
    using chaining_never_mutates_receiver [OF live, of "OneRoom ''y''"] a b5 b7
    by (simp add: operator_to_x)
qed

subsection \<open>The acknowledgement closure\<close>


lemma checkCompleteness_fields [simp]:
  "timedOut (checkCompleteness flags s) = timedOut s"
  "responses (checkCompleteness flags s) = responses s"
  "expectedServerCount (checkCompleteness flags s) = expectedServerCount s"
  "actualServerCount (checkCompleteness flags s) = actualServerCount s"
  "expectedClientCount (checkCompleteness flags s) = expectedClientCount s"
  by (simp_all add: checkCompleteness_def)

lemma ack_run_Nil [simp]: "ack_run flags s [] = s"
  by (simp add: ack_run_def)

lemma ack_run_snoc [simp]: "ack_run flags s (es @ [e]) = ack_step flags (ack_run flags s es) e"
  by (simp add: ack_run_def)

lemma ack_run_append: "ack_run flags s (es @ es') = ack_run flags (ack_run flags s es) es'"
  by (simp add: ack_run_def)

lemma ack_run_Cons: "ack_run flags s (e # es) = ack_run flags (ack_step flags s e) es"
  by (simp add: ack_run_def)

lemma client_responses_append [simp]:
  "client_responses (es @ es') = client_responses es @ client_responses es'"
  by (induction es rule: client_responses.induct) simp_all

lemma server_reports_append [simp]:
  "server_reports (es @ es') = server_reports es @ server_reports es'"
  by (induction es rule: server_reports.induct) simp_all

lemma server_counts_append [simp]:
  "server_counts (es @ es') = server_counts es @ server_counts es'"
  by (induction es rule: server_counts.induct) simp_all

text \<open>The counters after a run in which the timer did not expire.\<close>

lemma ack_run_counters:
  assumes "\<not> list_ex is_TimerExpired es"
  shows "timedOut (ack_run flags ack_start es) = False \<and>
    responses (ack_run flags ack_start es) = client_responses es \<and>
    actualServerCount (ack_run flags ack_start es) = int (length (server_reports es)) \<and>
    expectedClientCount (ack_run flags ack_start es) = sum_list (server_reports es) \<and>
    expectedServerCount (ack_run flags ack_start es) =
      (if server_counts es = [] then - 1 else last (server_counts es))"
  using assms
proof (induction es rule: rev_induct)
  case Nil
  show ?case by (simp add: ack_start_def)
next
  case (snoc e es)
  then show ?case by (cases e) simp_all
qed

lemma complete_checkCompleteness [simp]:
  "complete (checkCompleteness flags s) = complete s"
  by (simp add: complete_def)

lemma checkCompleteness_calls:
  "ack_calls (checkCompleteness flags s) =
     ack_calls s @
       (if complete s
        then [\<lparr>ack_err = None,
               ack_value = (if expectSingleResponse flags = Some True
                            then first_response (responses s) else Array (responses s))\<rparr>]
        else [])"
  "timer (checkCompleteness flags s) = (if complete s then clearTimeout (timer s) else timer s)"
  by (simp_all add: checkCompleteness_def)

lemma ack_step_calls:
  assumes "\<not> is_TimerExpired e"
  shows "ack_calls (ack_step flags s e) =
      ack_calls s @
        (if complete (ack_step flags s e)
         then [\<lparr>ack_err = None,
                ack_value = (if expectSingleResponse flags = Some True
                             then first_response (responses (ack_step flags s e))
                             else Array (responses (ack_step flags s e)))\<rparr>]
         else [])"
    and "timer (ack_step flags s e) =
      (if complete (ack_step flags s e) then clearTimeout (timer s) else timer s)"
proof -
  show "ack_calls (ack_step flags s e) =
      ack_calls s @
        (if complete (ack_step flags s e)
         then [\<lparr>ack_err = None,
                ack_value = (if expectSingleResponse flags = Some True
                             then first_response (responses (ack_step flags s e))
                             else Array (responses (ack_step flags s e)))\<rparr>]
         else [])"
    using assms by (cases e) (simp_all add: checkCompleteness_calls)
  show "timer (ack_step flags s e) =
      (if complete (ack_step flags s e) then clearTimeout (timer s) else timer s)"
    using assms by (cases e) (simp_all add: checkCompleteness_calls)
qed

lemma client_responses_single: "client_responses (e # es) = client_responses [e] @ client_responses es"
  by (cases e) simp_all

lemma server_reports_single: "server_reports (e # es) = server_reports [e] @ server_reports es"
  by (cases e) simp_all

lemma server_counts_single: "server_counts (e # es) = server_counts [e] @ server_counts es"
  by (cases e) simp_all

lemma mset_client_responses:
  "mset (client_responses es) = (\<Sum>e\<in>#mset es. mset (client_responses [e]))"
proof (induction es)
  case Nil show ?case by simp
next
  case (Cons e es)
  then show ?case using client_responses_single [of e es] by simp
qed

lemma mset_server_reports:
  "mset (server_reports es) = (\<Sum>e\<in>#mset es. mset (server_reports [e]))"
proof (induction es)
  case Nil show ?case by simp
next
  case (Cons e es)
  then show ?case using server_reports_single [of e es] by simp
qed

lemma mset_server_counts:
  "mset (server_counts es) = (\<Sum>e\<in>#mset es. mset (server_counts [e]))"
proof (induction es)
  case Nil show ?case by simp
next
  case (Cons e es)
  then show ?case using server_counts_single [of e es] by simp
qed

lemma projections_of_reports [simp]:
  "client_responses (map ServerResponded cs) = []"
  "server_reports (map ServerResponded cs) = cs"
  "server_counts (map ServerResponded cs) = []"
  by (induction cs) simp_all

lemma projections_of_responses [simp]:
  "client_responses (map ClientResponded rs) = rs"
  "server_reports (map ClientResponded rs) = []"
  "server_counts (map ClientResponded rs) = []"
  by (induction rs) simp_all

text \<open>What an interleaving of a scenario's events holds.\<close>

lemma interleaving_projections:
  assumes "mset es = mset (ServerCountResolved n # map ServerResponded cs @ map ClientResponded rs)"
  shows "mset (client_responses es) = mset rs"
    and "mset (server_reports es) = mset cs"
    and "server_counts es = [n]"
    and "\<not> list_ex is_TimerExpired es"
proof -
  let ?t = "ServerCountResolved n # map ServerResponded cs @ map ClientResponded rs"
  show "mset (client_responses es) = mset rs"
    using mset_client_responses [of es] mset_client_responses [of ?t] assms by simp
  show "mset (server_reports es) = mset cs"
    using mset_server_reports [of es] mset_server_reports [of ?t] assms by simp
  have m: "mset (server_counts es) = mset [n]"
    using mset_server_counts [of es] mset_server_counts [of ?t] assms by simp
  from m have "length (server_counts es) = 1"
    by (metis length_Cons list.size(3) One_nat_def mset_eq_length)
  moreover from m have "set (server_counts es) = {n}"
    by (metis mset_eq_setD list.simps(15) empty_set)
  ultimately show "server_counts es = [n]"
    by (cases "server_counts es") auto
  have "set es = set ?t" using assms by (rule mset_eq_setD)
  moreover have "TimerExpired \<notin> set ?t" by auto
  ultimately have "TimerExpired \<notin> set es" by simp
  then show "\<not> list_ex is_TimerExpired es"
    by (induction es) (auto elim: is_TimerExpired.elims)
qed

lemma timer_free_projections_empty:
  assumes "\<not> list_ex is_TimerExpired q" "client_responses q = []" "server_reports q = []"
    "server_counts q = []"
  shows "q = []"
proof (cases q)
  case Nil then show ?thesis .
next
  case (Cons e q')
  with assms show ?thesis by (cases e) simp_all
qed

lemma list_ex_append_TimerExpired:
  "list_ex is_TimerExpired (p @ q) \<longleftrightarrow> list_ex is_TimerExpired p \<or> list_ex is_TimerExpired q"
  by (simp add: list_ex_iff) blast

lemma incomplete_proper_prefix:
  assumes perm: "mset (p @ q) =
      mset (ServerCountResolved (int (length cs)) # map ServerResponded cs @ map ClientResponded rs)"
    and total: "sum_list cs = int (length rs)"
    and more: "q \<noteq> []"
  shows "\<not> complete (ack_run flags ack_start p)"
proof -
  note pr = interleaving_projections [OF perm]
  from pr(4) have tf: "\<not> list_ex is_TimerExpired p" "\<not> list_ex is_TimerExpired q"
    by (simp_all add: list_ex_append_TimerExpired)
  note st = ack_run_counters [OF tf(1), of flags]
  from pr(3) have sc: "server_counts p @ server_counts q = [int (length cs)]" by simp
  from pr(2) have sr_len: "length (server_reports p) + length (server_reports q) = length cs"
    using mset_eq_length [of "server_reports (p @ q)" cs] by simp
  have "sum_list (server_reports (p @ q)) = sum_list cs"
    using pr(2) by (metis sum_mset_sum_list)
  then have sr_sum: "sum_list (server_reports p) + sum_list (server_reports q) = sum_list cs"
    by simp
  from pr(1) have cr_len: "length (client_responses p) + length (client_responses q) = length rs"
    using mset_eq_length [of "client_responses (p @ q)" rs] by simp
  consider (counts) "server_counts q \<noteq> []"
    | (reports) "server_counts q = []" "server_reports q \<noteq> []"
    | (clients) "server_counts q = []" "server_reports q = []" "client_responses q \<noteq> []"
    using timer_free_projections_empty [OF tf(2)] more by blast
  then show ?thesis
  proof cases
    case counts
    with sc have "server_counts p = []" by (cases "server_counts p") auto
    with st show ?thesis by (simp add: complete_def)
  next
    case reports
    with sc have "server_counts p = [int (length cs)]" by simp
    moreover from reports(2) sr_len have "length (server_reports p) < length cs"
      by (cases "server_reports q") auto
    ultimately show ?thesis using st by (simp add: complete_def)
  next
    case clients
    with sr_sum have "sum_list (server_reports p) = sum_list cs" by simp
    moreover from clients(3) cr_len have "length (client_responses p) < length rs"
      by (cases "client_responses q") auto
    ultimately show ?thesis using st total by (simp add: complete_def)
  qed
qed

lemma quiet_before_last_report:
  assumes total: "sum_list cs = int (length rs)"
  shows "q \<noteq> [] \<Longrightarrow>
    mset (p @ q) =
      mset (ServerCountResolved (int (length cs)) # map ServerResponded cs @ map ClientResponded rs) \<Longrightarrow>
    ack_calls (ack_run flags ack_start p) = [] \<and> timer (ack_run flags ack_start p) = Pending"
proof (induction p arbitrary: q rule: rev_induct)
  case Nil
  show ?case by (simp add: ack_start_def)
next
  case (snoc e p)
  from snoc.prems(2) have perm': "mset (p @ (e # q)) =
      mset (ServerCountResolved (int (length cs)) # map ServerResponded cs @ map ClientResponded rs)"
    by simp
  from snoc.IH [OF _ perm']
  have before: "ack_calls (ack_run flags ack_start p) = []" "timer (ack_run flags ack_start p) = Pending"
    by simp_all
  from interleaving_projections(4) [OF snoc.prems(2)] have ne: "\<not> is_TimerExpired e"
    by (simp add: list_ex_append_TimerExpired)
  from incomplete_proper_prefix [OF snoc.prems(2) total snoc.prems(1), of flags]
  have "\<not> complete (ack_step flags (ack_run flags ack_start p) e)" by simp
  with before ack_step_calls [OF ne, of flags "ack_run flags ack_start p"]
  show ?case by simp
qed

lemma complete_at_last_report:
  assumes perm: "mset es =
      mset (ServerCountResolved (int (length cs)) # map ServerResponded cs @ map ClientResponded rs)"
    and total: "sum_list cs = int (length rs)"
  shows "complete (ack_run flags ack_start es)"
    and "expectedServerCount (ack_run flags ack_start es) = int (length cs)"
    and "actualServerCount (ack_run flags ack_start es) = int (length cs)"
    and "expectedClientCount (ack_run flags ack_start es) = int (length rs)"
    and "responses (ack_run flags ack_start es) = client_responses es"
    and "length (client_responses es) = length rs"
proof -
  note pr = interleaving_projections [OF perm]
  note st = ack_run_counters [OF pr(4), of flags]
  have len: "length (server_reports es) = length cs"
    using mset_eq_length [OF pr(2)] .
  have sm: "sum_list (server_reports es) = sum_list cs"
    using pr(2) by (metis sum_mset_sum_list)
  show cl: "length (client_responses es) = length rs"
    using mset_eq_length [OF pr(1)] .
  show "complete (ack_run flags ack_start es)"
    using st len sm cl total pr(3) by (simp add: complete_def)
  show "expectedServerCount (ack_run flags ack_start es) = int (length cs)"
    using st pr(3) by simp
  show "actualServerCount (ack_run flags ack_start es) = int (length cs)"
    using st len by simp
  show "expectedClientCount (ack_run flags ack_start es) = int (length rs)"
    using st sm total by simp
  show "responses (ack_run flags ack_start es) = client_responses es"
    using st by simp
qed

text \<open>The callback log after any interleaving of a scenario's events.\<close>

lemma ack_calls_of_interleaving:
  assumes perm: "mset es =
      mset (ServerCountResolved (int (length cs)) # map ServerResponded cs @ map ClientResponded rs)"
    and total: "sum_list cs = int (length rs)"
  shows "ack_calls (ack_run flags ack_start es) =
      [\<lparr>ack_err = None,
        ack_value = (if expectSingleResponse flags = Some True
                     then first_response (client_responses es)
                     else Array (client_responses es))\<rparr>]"
    and "timer (ack_run flags ack_start es) = Cleared"
proof -
  from perm have "es \<noteq> []" by auto
  then obtain p e where es: "es = p @ [e]" by (metis rev_exhaust)
  from perm es have perm': "mset (p @ [e]) =
      mset (ServerCountResolved (int (length cs)) # map ServerResponded cs @ map ClientResponded rs)"
    by simp
  from quiet_before_last_report [OF total _ perm', of flags]
  have before: "ack_calls (ack_run flags ack_start p) = []" "timer (ack_run flags ack_start p) = Pending"
    by simp_all
  from interleaving_projections(4) [OF perm'] have ne: "\<not> is_TimerExpired e"
    by (simp add: list_ex_append_TimerExpired)
  from complete_at_last_report(1,5) [OF perm total, of flags] es
  have c: "complete (ack_step flags (ack_run flags ack_start p) e)"
    and r: "responses (ack_step flags (ack_run flags ack_start p) e) = client_responses es"
    by simp_all
  from ack_step_calls [OF ne, of flags "ack_run flags ack_start p"] before c r
  show "ack_calls (ack_run flags ack_start es) =
      [\<lparr>ack_err = None,
        ack_value = (if expectSingleResponse flags = Some True
                     then first_response (client_responses es)
                     else Array (client_responses es))\<rparr>]"
    and "timer (ack_run flags ack_start es) = Cleared"
    by (simp_all add: es clearTimeout_def)
qed

lemma timer_inv_step:
  assumes "timer_inv s"
  shows "timer_inv (ack_step flags s e)"
proof (cases e)
  case TimerExpired
  with assms show ?thesis by (auto simp: timer_inv_def)
next
  case (ServerResponded c)
  with assms show ?thesis
    by (auto simp: timer_inv_def checkCompleteness_calls complete_def clearTimeout_def
        split: timer_state.splits)
next
  case (ClientResponded r)
  with assms show ?thesis
    by (auto simp: timer_inv_def checkCompleteness_calls complete_def clearTimeout_def
        split: timer_state.splits)
next
  case (ServerCountResolved n)
  with assms show ?thesis
    by (auto simp: timer_inv_def checkCompleteness_calls complete_def clearTimeout_def
        split: timer_state.splits)
qed

lemma timer_inv_run: "timer_inv s \<Longrightarrow> timer_inv (ack_run flags s es)"
  by (induction es rule: rev_induct) (simp_all add: timer_inv_step)

lemma timer_inv_start: "timer_inv ack_start"
  by (simp add: timer_inv_def ack_start_def)





lemma ack_calls_grow_step: "\<exists>new. ack_calls (ack_step flags s e) = ack_calls s @ new"
  by (cases e) (simp_all add: checkCompleteness_calls)

lemma ack_calls_grow_run: "\<exists>new. ack_calls (ack_run flags s es) = ack_calls s @ new"
proof (induction es rule: rev_induct)
  case Nil show ?case by simp
next
  case (snoc e es)
  then obtain new where "ack_calls (ack_run flags s es) = ack_calls s @ new" by blast
  moreover obtain new' where
    "ack_calls (ack_step flags (ack_run flags s es) e) = ack_calls (ack_run flags s es) @ new'"
    using ack_calls_grow_step by blast
  ultimately show ?case by simp
qed

lemma unanswered_no_expiry:
  "ack_calls (ack_run flags ack_start es) = [] \<Longrightarrow> \<not> list_ex is_TimerExpired es"
proof (induction es rule: rev_induct)
  case Nil show ?case by simp
next
  case (snoc e es)
  obtain new where g: "ack_calls (ack_step flags (ack_run flags ack_start es) e) =
      ack_calls (ack_run flags ack_start es) @ new"
    using ack_calls_grow_step by blast
  with snoc.prems have before: "ack_calls (ack_run flags ack_start es) = []" by simp
  with snoc.IH have tf: "\<not> list_ex is_TimerExpired es" by simp
  have pend: "timer (ack_run flags ack_start es) = Pending"
    using timer_inv_run [OF timer_inv_start, of flags es] before by (simp add: timer_inv_def)
  have "\<not> is_TimerExpired e"
  proof
    assume "is_TimerExpired e"
    then have "e = TimerExpired" by (cases e) simp_all
    with pend snoc.prems show False by simp
  qed
  with tf show ?case by (simp add: list_ex_append_TimerExpired)
qed

text \<open>Once the timer has fired, nothing calls the callback again.\<close>

lemma timed_out_step:
  assumes "timedOut s" "timer s = Fired"
  shows "timedOut (ack_step flags s e) \<and> timer (ack_step flags s e) = Fired \<and>
    ack_calls (ack_step flags s e) = ack_calls s"
  using assms by (cases e) (simp_all add: checkCompleteness_calls complete_def)

lemma timed_out_run:
  assumes "timedOut s" "timer s = Fired"
  shows "timedOut (ack_run flags s es) \<and> timer (ack_run flags s es) = Fired \<and>
    ack_calls (ack_run flags s es) = ack_calls s"
  using assms
proof (induction es rule: rev_induct)
  case Nil then show ?case by simp
next
  case (snoc e es)
  then show ?case using timed_out_step [of "ack_run flags s es" flags e] by simp
qed

lemma deadline_before_completeness:
  assumes "ack_calls (ack_run flags ack_start es) = []"
  shows "ack_calls (ack_run flags ack_start (es @ TimerExpired # es')) =
      [\<lparr>ack_err = Some timeout_error,
        ack_value = (if expectSingleResponse flags = Some True then Null
                     else Array (client_responses es))\<rparr>]"
proof -
  let ?s = "ack_run flags ack_start es"
  have pend: "timer ?s = Pending"
    using timer_inv_run [OF timer_inv_start, of flags es] assms by (simp add: timer_inv_def)
  have resp: "responses ?s = client_responses es"
    using ack_run_counters [OF unanswered_no_expiry [OF assms], of flags] by simp
  let ?t = "ack_step flags ?s TimerExpired"
  have t: "timedOut ?t" "timer ?t = Fired"
    "ack_calls ?t = [\<lparr>ack_err = Some timeout_error,
        ack_value = (if expectSingleResponse flags = Some True then Null
                     else Array (client_responses es))\<rparr>]"
    using pend assms resp by simp_all
  have "ack_run flags ack_start (es @ TimerExpired # es') = ack_run flags ?t es'"
    by (simp add: ack_run_append ack_run_Cons)
  with timed_out_run [OF t(1,2), of flags es'] t(3) show ?thesis by simp
qed

text \<open>
  C2, as the claim states it, fails on an operator whose flags have
  \<open>expectSingleResponse\<close> (the operator of a remote socket handle): one server reports
  one client, its response arrives, \<open>serverCount()\<close> resolves to 1, and the callback is
  called with the response itself, not with the array of all responses.
\<close>

theorem ack_single_response_counterexample:
  "ack_calls (ack_run remote_flags ack_start
      [ServerResponded 1, ClientResponded ''pong'', ServerCountResolved 1]) =
     [\<lparr>ack_err = None, ack_value = Single ''pong''\<rparr>] \<and>
   ack_calls (ack_run remote_flags ack_start
      [ServerResponded 1, ClientResponded ''pong'', ServerCountResolved 1]) \<noteq>
     [\<lparr>ack_err = None, ack_value = Array [''pong'']\<rparr>]"
  by (simp add: ack_run_def ack_start_def checkCompleteness_def complete_def remote_flags_def
      no_flags_def first_response_def clearTimeout_def)

text \<open>
  C2, amended. The servers report the client counts \<open>cs\<close>, \<open>serverCount()\<close> resolves to
  their number, the responses \<open>rs\<close> arrive, as many as the counts add up to, and \<open>es\<close> is
  any interleaving of these events. Then the callback is called exactly once, with no
  error and the array of all responses in arrival order, or with the first of them
  when the flags have \<open>expectSingleResponse\<close>. It is called at the last event and not
  before: after every proper prefix of \<open>es\<close> the call list is empty. At the call
  \<open>expectedServerCount\<close> is known and equals \<open>actualServerCount\<close>, \<open>responses.length\<close>
  equals \<open>expectedClientCount\<close>, and the timer is cleared.
\<close>

theorem ack_aggregation:
  assumes "mset es =
      mset (ServerCountResolved (int (length cs)) # map ServerResponded cs @ map ClientResponded rs)"
    and "sum_list cs = int (length rs)"
  shows "ack_calls (ack_run flags ack_start es) =
      [\<lparr>ack_err = None,
        ack_value = (if expectSingleResponse flags = Some True
                     then first_response (client_responses es)
                     else Array (client_responses es))\<rparr>] \<and>
    mset (client_responses es) = mset rs \<and>
    (\<forall>p q. es = p @ q \<and> q \<noteq> [] \<longrightarrow> ack_calls (ack_run flags ack_start p) = []) \<and>
    expectedServerCount (ack_run flags ack_start es) = int (length cs) \<and>
    actualServerCount (ack_run flags ack_start es) = int (length cs) \<and>
    expectedClientCount (ack_run flags ack_start es) = int (length rs) \<and>
    length (responses (ack_run flags ack_start es)) = length rs \<and>
    timer (ack_run flags ack_start es) = Cleared"
proof -
  have quiet: "ack_calls (ack_run flags ack_start p) = []" if "es = p @ q" "q \<noteq> []" for p q
    using quiet_before_last_report [OF assms(2) that(2), where p = p and flags = flags]
      assms(1) that(1) by simp
  show ?thesis
    using ack_calls_of_interleaving [OF assms, of flags]
      complete_at_last_report(2,3,4,5) [OF assms, of flags] complete_at_last_report(6) [OF assms]
      interleaving_projections(1) [OF assms(1)] quiet
    by simp
qed

theorem ack_aggregation_witness:
  "mset five_acks = mset (ServerCountResolved (int (length [3, 2 :: int])) #
      map ServerResponded [3, 2] @ map ClientResponded [''r1'', ''r2'', ''r3'', ''r4'', ''r5'']) \<and>
   sum_list [3, 2 :: int] = int (length [''r1'', ''r2'', ''r3'', ''r4'', ''r5'']) \<and>
   ack_calls (ack_run no_flags ack_start five_acks) =
     [\<lparr>ack_err = None, ack_value = Array [''r1'', ''r2'', ''r3'', ''r4'', ''r5'']\<rparr>] \<and>
   ack_calls (ack_run no_flags ack_start (butlast five_acks)) = []"
proof -
  have perm: "mset five_acks = mset (ServerCountResolved (int (length [3, 2 :: int])) #
      map ServerResponded [3, 2] @ map ClientResponded [''r1'', ''r2'', ''r3'', ''r4'', ''r5''])"
    by (simp add: five_acks_def)
  have total: "sum_list [3, 2 :: int] = int (length [''r1'', ''r2'', ''r3'', ''r4'', ''r5''])"
    by simp
  have split: "five_acks = butlast five_acks @ [ClientResponded ''r5'']"
    by (simp add: five_acks_def)
  have flag: "expectSingleResponse no_flags \<noteq> Some True" by (simp add: no_flags_def)
  have resp: "client_responses five_acks = [''r1'', ''r2'', ''r3'', ''r4'', ''r5'']"
    by (simp add: five_acks_def)
  from ack_aggregation [OF perm total, of no_flags] flag resp split
  have "ack_calls (ack_run no_flags ack_start five_acks) =
     [\<lparr>ack_err = None, ack_value = Array [''r1'', ''r2'', ''r3'', ''r4'', ''r5'']\<rparr>]"
    and "ack_calls (ack_run no_flags ack_start (butlast five_acks)) = []"
    by (simp, blast)
  with perm total show ?thesis by simp
qed


text \<open>
  C3, as the claim states it, fails on an operator whose flags have
  \<open>expectSingleResponse\<close>: one response of two has arrived when the timer expires, and
  the callback is called with the error and \<open>null\<close>, not with the responses collected.
\<close>

theorem timeout_null_counterexample:
  "responses (ack_run remote_flags ack_start [ServerResponded 2, ClientResponded ''a'']) = [''a''] \<and>
   ack_calls (ack_run remote_flags ack_start
      [ServerResponded 2, ClientResponded ''a'', TimerExpired]) =
     [\<lparr>ack_err = Some timeout_error, ack_value = Null\<rparr>] \<and>
   ack_calls (ack_run remote_flags ack_start
      [ServerResponded 2, ClientResponded ''a'', TimerExpired]) \<noteq>
     [\<lparr>ack_err = Some timeout_error, ack_value = Array [''a'']\<rparr>]"
  by (simp add: ack_run_def ack_start_def checkCompleteness_def complete_def remote_flags_def
      no_flags_def)

text \<open>
  C3, amended. If the callback has not been called when the timer expires, it is
  called then with the timeout error and the array of the responses that have arrived,
  or with \<open>null\<close> when the flags have \<open>expectSingleResponse\<close>; whatever events \<open>es'\<close>
  follow, responses among them, that call stays the only one. A late response is still
  appended to the \<open>responses\<close> array, the one the callback was handed, and has no other
  effect.
\<close>

theorem timeout_fires_once:
  assumes "ack_calls (ack_run flags ack_start es) = []"
  shows "ack_calls (ack_run flags ack_start (es @ TimerExpired # es')) =
      [\<lparr>ack_err = Some timeout_error,
        ack_value = (if expectSingleResponse flags = Some True then Null
                     else Array (client_responses es))\<rparr>]"
  using assms by (rule deadline_before_completeness)

theorem timeout_fires_once_witness:
  "ack_calls (ack_run no_flags ack_start four_acks) = [] \<and>
   ack_calls (ack_run no_flags ack_start (four_acks @ TimerExpired # [ClientResponded ''r5''])) =
     [\<lparr>ack_err = Some timeout_error, ack_value = Array [''r1'', ''r2'', ''r3'', ''r4'']\<rparr>]"
proof -
  have quiet: "ack_calls (ack_run no_flags ack_start four_acks) = []"
    by (simp add: four_acks_def ack_run_def ack_start_def checkCompleteness_def complete_def)
  have flag: "expectSingleResponse no_flags \<noteq> Some True" by (simp add: no_flags_def)
  have resp: "client_responses four_acks = [''r1'', ''r2'', ''r3'', ''r4'']"
    by (simp add: four_acks_def)
  from timeout_fires_once [OF quiet, of "[ClientResponded ''r5'']"] quiet flag resp
  show ?thesis by simp
qed

subsection \<open>emit and the remote socket handle\<close>


text \<open>
  C8. \<open>emit\<close> with a name of the reserved set throws the error before it has built a
  packet or called the adapter: no call is made. With any other name it throws
  nothing, calls the adapter and returns \<open>true\<close>.
\<close>

theorem emit_reserved_event:
  "(ev \<in> RESERVED_EVENTS \<longrightarrow>
      emit RESERVED_EVENTS sel ev args = ([], Inl (Error (reserved_event_message ev)))) \<and>
   (ev \<notin> RESERVED_EVENTS \<longrightarrow>
      snd (emit RESERVED_EVENTS sel ev args) = Inr True \<and>
      fst (emit RESERVED_EVENTS sel ev args) \<noteq> [])"
  by (simp add: emit_def Let_def split: js_value.splits)

theorem emit_reserved_event_witness:
  "''disconnect'' \<in> socket_reserved_events \<and> ''foo'' \<notin> socket_reserved_events \<and>
   emit socket_reserved_events plain_selector ''disconnect'' [Val (1 :: nat), Fun (0 :: nat)] =
     ([], Inl (Error (reserved_event_message ''disconnect''))) \<and>
   emit socket_reserved_events plain_selector ''foo'' [Str ''bar'' :: (nat, nat) js_value] =
     ([AdapterBroadcast \<lparr>ptype = EVENT, data = [Str ''foo'', Str ''bar''], nsp = None\<rparr>
         (selector_opts plain_selector)], Inr True)"
proof -
  have r: "''disconnect'' \<in> socket_reserved_events" "''foo'' \<notin> socket_reserved_events"
    by (simp_all add: socket_reserved_events_def)
  have e: "emit socket_reserved_events plain_selector ''foo'' [Str ''bar'' :: (nat, nat) js_value] =
     ([AdapterBroadcast \<lparr>ptype = EVENT, data = [Str ''foo'', Str ''bar''], nsp = None\<rparr>
         (selector_opts plain_selector)], Inr True)"
    using r(2) by (simp add: emit_def)
  show ?thesis
    using r e emit_reserved_event [of "''disconnect''" socket_reserved_events plain_selector
        "[Val (1 :: nat), Fun (0 :: nat)]"]
    by simp
qed




lemma mset_eq_singleton:
  assumes "mset xs = mset [x]"
  shows "xs = [x]"
proof -
  from assms have "length xs = 1" using mset_eq_length by fastforce
  moreover from assms have "set xs = {x}" using mset_eq_setD by fastforce
  ultimately show ?thesis by (cases xs) auto
qed

lemma Set_of_array_single: "Set_of_array [r] = [r]"
  by (simp add: Set_of_array_def Set_add_def)

lemma new_RemoteSocket_selector:
  assumes "new_RemoteSocket h adapter details = (h', this)"
  shows "selector h' (rs_operator this) =
      Some \<lparr>sel_rooms = [sd_id details], sel_except = [], sel_flags = remote_flags\<rparr>"
    and "rs_id this = sd_id details"
  using assms
  by (auto simp: new_RemoteSocket_def new_BroadcastOperator_def alloc_def selector_def
      get_Operator_def get_Set_def get_Flags_def Set_of_array_single remote_flags_def nth_append)

text \<open>
  C9. The operator a remote socket handle builds for itself selects the rooms
  \<open>{id}\<close>, no exclusions, and flags in which only \<open>expectSingleResponse\<close> is set, and
  the handle's \<open>emit\<close> is that operator's. With these flags, whenever the servers'
  counts add up to one and that one response arrives, in any interleaving, the callback
  is called once with no error and the response itself, not an array.
\<close>

theorem remote_socket_single_response:
  assumes "new_RemoteSocket h adapter details = (h', this)"
    and "mset es =
      mset (ServerCountResolved (int (length cs)) # map ServerResponded cs @ [ClientResponded r])"
    and "sum_list cs = 1"
  shows "selector h' (rs_operator this) =
      Some \<lparr>sel_rooms = [rs_id this], sel_except = [],
        sel_flags = no_flags\<lparr>expectSingleResponse := Some True\<rparr>\<rparr> \<and>
    RemoteSocket_emit RESERVED_EVENTS h' this ev (args :: ('v, 'f) js_value list) =
      Some (emit RESERVED_EVENTS
        \<lparr>sel_rooms = [rs_id this], sel_except = [],
          sel_flags = no_flags\<lparr>expectSingleResponse := Some True\<rparr>\<rparr> ev args) \<and>
    ack_calls (ack_run (no_flags\<lparr>expectSingleResponse := Some True\<rparr>) ack_start es) =
      [\<lparr>ack_err = None, ack_value = Single r\<rparr>]"
proof -
  note sel = new_RemoteSocket_selector [OF assms(1)]
  have perm: "mset es =
      mset (ServerCountResolved (int (length cs)) # map ServerResponded cs @ map ClientResponded [r])"
    using assms(2) by simp
  have total: "sum_list cs = int (length [r])" using assms(3) by simp
  from interleaving_projections(1) [OF perm] have "client_responses es = [r]"
    by (rule mset_eq_singleton)
  with ack_calls_of_interleaving(1) [OF perm total, of "no_flags\<lparr>expectSingleResponse := Some True\<rparr>"]
  have "ack_calls (ack_run (no_flags\<lparr>expectSingleResponse := Some True\<rparr>) ack_start es) =
      [\<lparr>ack_err = None, ack_value = Single r\<rparr>]"
    by (simp add: first_response_def)
  with sel show ?thesis by (simp add: RemoteSocket_emit_def remote_flags_def)
qed

theorem remote_socket_single_response_witness:
  "new_RemoteSocket [] 0 details_abc = (heap_abc, handle_abc) \<and>
   mset [ServerResponded 0, ClientResponded ''pong'', ServerCountResolved 2, ServerResponded 1] =
     mset (ServerCountResolved (int (length [0, 1 :: int])) # map ServerResponded [0, 1] @
       [ClientResponded ''pong'']) \<and>
   sum_list [0, 1 :: int] = 1 \<and>
   selector heap_abc (rs_operator handle_abc) =
      Some \<lparr>sel_rooms = [''abc''], sel_except = [],
        sel_flags = no_flags\<lparr>expectSingleResponse := Some True\<rparr>\<rparr> \<and>
   ack_calls (ack_run (no_flags\<lparr>expectSingleResponse := Some True\<rparr>) ack_start
      [ServerResponded 0, ClientResponded ''pong'', ServerCountResolved 2, ServerResponded 1]) =
     [\<lparr>ack_err = None, ack_value = Single ''pong''\<rparr>]"
proof -
  have new: "new_RemoteSocket [] 0 details_abc = (heap_abc, handle_abc)"
    by (simp add: new_RemoteSocket_def new_BroadcastOperator_def alloc_def details_abc_def
        heap_abc_def handle_abc_def remote_flags_def Set_of_array_def Set_add_def)
  have perm: "mset [ServerResponded 0, ClientResponded ''pong'', ServerCountResolved 2,
       ServerResponded 1] =
     mset (ServerCountResolved (int (length [0, 1 :: int])) # map ServerResponded [0, 1] @
       [ClientResponded ''pong''])"
    by simp
  have total: "sum_list [0, 1 :: int] = 1" by simp
  show ?thesis
    using new perm total
      remote_socket_single_response [OF new perm total,
        where ?'v = unit and ?'f = unit and RESERVED_EVENTS = socket_reserved_events
          and ev = "''ping''" and args = "[]"]
    by (simp add: handle_abc_def)
qed

end
